theory Spec2Isabelle
  imports Complex_Main
begin

section \<open>JavaScript numbers\<close>

text \<open>
  The server computes with JavaScript numbers: IEEE 754 doubles. A number is modelled as
  one of the three special values or a real, which is meant to be a double. Every
  arithmetic operation on finite operands computes the exact real result and rounds it
  to the nearest double, ties to even, with gradual underflow and with overflow to
  \<open>Infinity\<close>; so a small step can vanish and a sum can be absorbed, as in the
  program. The numbers of a parsed message are doubles already. The sign of zero is not
  modelled: the only divisor in the program is the result of \<open>Math.sqrt\<close> of a sum of
  squares, which is never the negative zero, so a zero divisor is the positive zero.
\<close>

datatype jsnum = Fin real | PInf | NInf | NaN

text \<open>Powers of two with an integer exponent.\<close>

definition pow2 :: "int \<Rightarrow> real" where
  "pow2 e = (if 0 \<le> e then 2 ^ nat e else 1 / 2 ^ nat (- e))"

text \<open>Rounding to the nearest integer, ties to even.\<close>

definition rne :: "real \<Rightarrow> int" where
  "rne r =
     (let f = \<lfloor>r\<rfloor> in
      if r - of_int f < 1 / 2 then f
      else if 1 / 2 < r - of_int f then f + 1
      else if even f then f else f + 1)"

text \<open>
  The exponent of the binade of a non-zero number, not below that of the subnormals.
\<close>

definition binade :: "real \<Rightarrow> int" where
  "binade x = max \<lfloor>log 2 \<bar>x\<bar>\<rfloor> (- 1022)"

text \<open>
  Rounding of an exact result to a double: 53 significant bits in the binade of the
  number, a multiple of \<open>2 ^ - 1074\<close> below the normal range, an infinity when the
  rounded magnitude reaches \<open>2 ^ 1024\<close>.
\<close>

definition fl :: "real \<Rightarrow> jsnum" where
  "fl x =
     (if x = 0 then Fin 0
      else
        let q = pow2 (binade x - 52);
            y = of_int (rne (x / q)) * q
        in if 2 ^ 1024 \<le> \<bar>y\<bar> then (if 0 < x then PInf else NInf) else Fin y)"

text \<open>The doubles that the literals \<open>0.0001\<close> and \<open>0.00001\<close> denote.\<close>

definition double_0001 :: real where
  "double_0001 = 7378697629483821 / 2 ^ 66"

definition double_00001 :: real where
  "double_00001 = 5902958103587057 / 2 ^ 69"

fun jneg :: "jsnum \<Rightarrow> jsnum" where
  "jneg (Fin a) = Fin (- a)"
| "jneg PInf = NInf"
| "jneg NInf = PInf"
| "jneg NaN = NaN"

fun jadd :: "jsnum \<Rightarrow> jsnum \<Rightarrow> jsnum" where
  "jadd (Fin a) (Fin b) = fl (a + b)"
| "jadd NaN _ = NaN"
| "jadd _ NaN = NaN"
| "jadd PInf NInf = NaN"
| "jadd NInf PInf = NaN"
| "jadd PInf _ = PInf"
| "jadd _ PInf = PInf"
| "jadd NInf _ = NInf"
| "jadd _ NInf = NInf"

definition jsub :: "jsnum \<Rightarrow> jsnum \<Rightarrow> jsnum" where
  "jsub a b = jadd a (jneg b)"

fun jmul :: "jsnum \<Rightarrow> jsnum \<Rightarrow> jsnum" where
  "jmul (Fin a) (Fin b) = fl (a * b)"
| "jmul NaN _ = NaN"
| "jmul _ NaN = NaN"
| "jmul PInf (Fin b) = (if b = 0 then NaN else if 0 < b then PInf else NInf)"
| "jmul NInf (Fin b) = (if b = 0 then NaN else if 0 < b then NInf else PInf)"
| "jmul (Fin a) PInf = (if a = 0 then NaN else if 0 < a then PInf else NInf)"
| "jmul (Fin a) NInf = (if a = 0 then NaN else if 0 < a then NInf else PInf)"
| "jmul PInf PInf = PInf"
| "jmul NInf NInf = PInf"
| "jmul PInf NInf = NInf"
| "jmul NInf PInf = NInf"

fun jdiv :: "jsnum \<Rightarrow> jsnum \<Rightarrow> jsnum" where
  "jdiv (Fin a) (Fin b) =
     (if b = 0 then (if a = 0 then NaN else if 0 < a then PInf else NInf)
      else fl (a / b))"
| "jdiv NaN _ = NaN"
| "jdiv _ NaN = NaN"
| "jdiv (Fin a) PInf = Fin 0"
| "jdiv (Fin a) NInf = Fin 0"
| "jdiv PInf (Fin b) = (if 0 \<le> b then PInf else NInf)"
| "jdiv NInf (Fin b) = (if 0 \<le> b then NInf else PInf)"
| "jdiv PInf PInf = NaN"
| "jdiv PInf NInf = NaN"
| "jdiv NInf PInf = NaN"
| "jdiv NInf NInf = NaN"

text \<open>\<open>Math.sqrt\<close>, correctly rounded.\<close>

fun Math_sqrt :: "jsnum \<Rightarrow> jsnum" where
  "Math_sqrt (Fin a) = (if a < 0 then NaN else fl (sqrt a))"
| "Math_sqrt PInf = PInf"
| "Math_sqrt NInf = NaN"
| "Math_sqrt NaN = NaN"

text \<open>\<open>Math.min\<close> of two arguments: \<open>NaN\<close> as soon as one of them is.\<close>

fun Math_min :: "jsnum \<Rightarrow> jsnum \<Rightarrow> jsnum" where
  "Math_min (Fin a) (Fin b) = Fin (min a b)"
| "Math_min NaN _ = NaN"
| "Math_min _ NaN = NaN"
| "Math_min NInf _ = NInf"
| "Math_min _ NInf = NInf"
| "Math_min PInf b = b"
| "Math_min a PInf = a"

text \<open>The comparison \<open>a >= b\<close>: false as soon as one side is \<open>NaN\<close>.\<close>

fun jge :: "jsnum \<Rightarrow> jsnum \<Rightarrow> bool" where
  "jge (Fin a) (Fin b) = (b \<le> a)"
| "jge NaN _ = False"
| "jge _ NaN = False"
| "jge PInf _ = True"
| "jge _ NInf = True"
| "jge NInf _ = False"
| "jge _ PInf = False"

text \<open>The comparison \<open>a > b\<close>.\<close>

fun jgt :: "jsnum \<Rightarrow> jsnum \<Rightarrow> bool" where
  "jgt (Fin a) (Fin b) = (b < a)"
| "jgt NaN _ = False"
| "jgt _ NaN = False"
| "jgt _ PInf = False"
| "jgt NInf _ = False"
| "jgt PInf _ = True"
| "jgt _ NInf = True"

text \<open>The comparison \<open>a > 0\<close>.\<close>

fun jpos :: "jsnum \<Rightarrow> bool" where
  "jpos (Fin a) = (0 < a)"
| "jpos PInf = True"
| "jpos NInf = False"
| "jpos NaN = False"

text \<open>Truthiness of a number, as \<open>||\<close> tests it: \<open>0\<close> and \<open>NaN\<close> are falsy.\<close>

fun truthy :: "jsnum \<Rightarrow> bool" where
  "truthy (Fin a) = (a \<noteq> 0)"
| "truthy NaN = False"
| "truthy PInf = True"
| "truthy NInf = True"

section \<open>Data model\<close>

record Coordinate =
  lat :: jsnum
  lng :: jsnum

text \<open>
  \<open>totalDistance\<close> and \<open>isComplete\<close> are optional fields: \<open>None\<close> is
  \<open>undefined\<close>. The waypoint indices only ever hold \<open>0\<close>, \<open>1\<close> and their
  increments.
\<close>

record SimulationState =
  waypoints :: "Coordinate list"
  currentWaypointIndex :: nat
  nextWaypointIndex :: nat
  progress :: jsnum
  speed :: jsnum
  isPaused :: bool
  startTime :: nat
  currentPosition :: Coordinate
  totalDistance :: "jsnum option"
  isComplete :: "bool option"

text \<open>
  The simulation state is an object shared by the registry entry and by the closure of
  the interval callback; \<open>state\<close> is its address in the heap of the server, and
  \<open>interval\<close> is the handle returned by \<open>setInterval\<close>.
\<close>

record ActiveSimulation =
  state :: nat
  interval :: nat

record WebSocketWithId =
  ws_id :: "string option"

record WebSocketMessage =
  msg_type :: string
  msg_waypoints :: "Coordinate list option"
  msg_speed :: "jsnum option"

text \<open>The objects handed to \<open>JSON.stringify\<close> and sent to a client.\<close>

datatype message =
    SIMULATION_STARTED Coordinate
  | POSITION_UPDATE Coordinate jsnum nat bool
  | ERROR string

datatype js_error = TypeError

text \<open>
  The server: the state objects allocated so far, the intervals created so far (an armed
  one holds what its callback captured: the identifier of the socket and the address of
  the state), the map \<open>activeSimulations\<close>, and the messages sent, each with the
  identifier of the socket it went to.
\<close>

record server =
  heap :: "SimulationState list"
  timers :: "(string \<times> nat) option list"
  activeSimulations :: "string \<rightharpoonup> ActiveSimulation"
  sent :: "(string \<times> message) list"

definition initial_server :: server where
  "initial_server = \<lparr>heap = [], timers = [], activeSimulations = Map.empty, sent = []\<rparr>"

section \<open>Route geometry\<close>

definition calculateDistance :: "Coordinate \<Rightarrow> Coordinate \<Rightarrow> jsnum" where
  "calculateDistance point1 point2 =
     (let latDiff = jsub (lat point2) (lat point1);
          lngDiff = jsub (lng point2) (lng point1)
      in Math_sqrt (jadd (jmul latDiff latDiff) (jmul lngDiff lngDiff)))"

text \<open>The loop over \<open>i = 0, ..., length - 2\<close>, accumulating from \<open>0\<close>.\<close>

definition calculateTotalDistance :: "Coordinate list \<Rightarrow> jsnum" where
  "calculateTotalDistance wps =
     foldl (\<lambda>total i. jadd total (calculateDistance (wps ! i) (wps ! (i + 1))))
       (Fin 0) [0..<length wps - 1]"

section \<open>The advance step\<close>

text \<open>
  The locals \<open>step\<close> and \<open>ratio\<close> of \<open>updateDronePosition\<close>; the literal
  \<open>0.0001\<close> is the double nearest to it.
\<close>

definition tick_step :: "jsnum \<Rightarrow> jsnum" where
  "tick_step spd = jdiv (jmul spd (fl (1 / 10000))) (Fin 10)"

definition tick_ratio :: "jsnum \<Rightarrow> jsnum \<Rightarrow> jsnum" where
  "tick_ratio prog segmentDistance = Math_min (jdiv prog segmentDistance) (Fin 1)"

definition interpolate :: "Coordinate \<Rightarrow> Coordinate \<Rightarrow> jsnum \<Rightarrow> Coordinate" where
  "interpolate current nxt ratio =
     \<lparr>lat = jadd (lat current) (jmul (jsub (lat nxt) (lat current)) ratio),
      lng = jadd (lng current) (jmul (jsub (lng nxt) (lng current)) ratio)\<rparr>"

text \<open>
  Reading \<open>waypoints[currentWaypointIndex]\<close> out of range gives \<open>undefined\<close>, whose
  field \<open>lat\<close> cannot be read: a \<open>TypeError\<close>, raised before the state is changed.
\<close>

definition updateDronePosition :: "SimulationState \<Rightarrow> js_error + SimulationState" where
  "updateDronePosition st =
     (if length (waypoints st) \<le> nextWaypointIndex st
      then Inr (st\<lparr>isComplete := Some True\<rparr>)
      else if length (waypoints st) \<le> currentWaypointIndex st then Inl TypeError
      else
        let current = waypoints st ! currentWaypointIndex st;
            nxt = waypoints st ! nextWaypointIndex st;
            segmentDistance = calculateDistance current nxt;
            step = tick_step (speed st);
            prog = jadd (progress st) step;
            ratio = tick_ratio prog segmentDistance;
            st1 = st\<lparr>progress := prog, currentPosition := interpolate current nxt ratio\<rparr>
        in if jge ratio (Fin 1)
           then Inr (st1\<lparr>currentWaypointIndex := currentWaypointIndex st + 1,
                         nextWaypointIndex := nextWaypointIndex st + 1,
                         progress := Fin 0\<rparr>)
           else Inr st1)"

section \<open>The handlers\<close>

definition sendError :: "string \<Rightarrow> string \<Rightarrow> server \<Rightarrow> server" where
  "sendError i txt srv = srv\<lparr>sent := sent srv @ [(i, ERROR txt)]\<rparr>"

definition clearInterval :: "nat \<Rightarrow> server \<Rightarrow> server" where
  "clearInterval h srv = srv\<lparr>timers := (timers srv)[h := None]\<rparr>"

text \<open>The state object that \<open>handleStartSimulation\<close> builds; \<open>speed || 1\<close>.\<close>

definition initialState :: "Coordinate list \<Rightarrow> jsnum option \<Rightarrow> nat \<Rightarrow> SimulationState" where
  "initialState wps spd now =
     \<lparr>waypoints = wps,
      currentWaypointIndex = 0,
      nextWaypointIndex = 1,
      progress = Fin 0,
      speed = (case spd of None \<Rightarrow> Fin 1 | Some v \<Rightarrow> if truthy v then v else Fin 1),
      isPaused = False,
      startTime = now,
      currentPosition = wps ! 0,
      totalDistance = Some (calculateTotalDistance wps),
      isComplete = None\<rparr>"

text \<open>\<open>now\<close> is the value of \<open>Date.now()\<close>.\<close>

definition handleStartSimulation ::
  "WebSocketWithId \<Rightarrow> WebSocketMessage \<Rightarrow> nat \<Rightarrow> server \<Rightarrow> server" where
  "handleStartSimulation ws data now srv =
     (case ws_id ws of
        None \<Rightarrow> srv
      | Some i \<Rightarrow>
          if i = [] then srv
          else
            (case msg_waypoints data of
               None \<Rightarrow> sendError i ''At least two waypoints are required'' srv
             | Some wps \<Rightarrow>
                 if length wps < 2
                 then sendError i ''At least two waypoints are required'' srv
                 else
                   let srv1 = (case activeSimulations srv i of
                                 None \<Rightarrow> srv
                               | Some sim \<Rightarrow> clearInterval (interval sim) srv);
                       a = length (heap srv1);
                       h = length (timers srv1)
                   in srv1\<lparr>heap := heap srv1 @ [initialState wps (msg_speed data) now],
                           timers := timers srv1 @ [Some (i, a)],
                           activeSimulations :=
                             (activeSimulations srv1)(i \<mapsto> \<lparr>state = a, interval = h\<rparr>),
                           sent := sent srv1 @ [(i, SIMULATION_STARTED (wps ! 0))]\<rparr>))"

text \<open>The message the interval callback sends; \<open>isComplete || false\<close>.\<close>

definition positionUpdate :: "SimulationState \<Rightarrow> message" where
  "positionUpdate st =
     POSITION_UPDATE (currentPosition st) (progress st) (currentWaypointIndex st)
       (case isComplete st of None \<Rightarrow> False | Some b \<Rightarrow> b)"

text \<open>
  One firing of the interval \<open>h\<close>. A cleared interval does not fire. An uncaught
  \<open>TypeError\<close> leaves the callback before anything is sent.
\<close>

definition intervalCallback :: "nat \<Rightarrow> server \<Rightarrow> js_error + server" where
  "intervalCallback h srv =
     (if length (timers srv) \<le> h then Inr srv
      else
        (case timers srv ! h of
           None \<Rightarrow> Inr srv
         | Some (i, a) \<Rightarrow>
             if length (heap srv) \<le> a then Inr srv
             else if isPaused (heap srv ! a) then Inr srv
             else
               (case updateDronePosition (heap srv ! a) of
                  Inl e \<Rightarrow> Inl e
                | Inr st \<Rightarrow>
                    let srv1 = srv\<lparr>heap := (heap srv)[a := st],
                                   sent := sent srv @ [(i, positionUpdate st)]\<rparr>
                    in if isComplete st = Some True
                       then Inr (srv1\<lparr>timers := (timers srv1)[h := None],
                                      activeSimulations := (activeSimulations srv1)(i := None)\<rparr>)
                       else Inr srv1)))"

definition handlePauseSimulation :: "string \<Rightarrow> server \<Rightarrow> server" where
  "handlePauseSimulation clientId srv =
     (case activeSimulations srv clientId of
        None \<Rightarrow> srv
      | Some sim \<Rightarrow>
          srv\<lparr>heap := (heap srv)[state sim := (heap srv ! state sim)\<lparr>isPaused := True\<rparr>]\<rparr>)"

definition handleResumeSimulation :: "string \<Rightarrow> server \<Rightarrow> server" where
  "handleResumeSimulation clientId srv =
     (case activeSimulations srv clientId of
        None \<Rightarrow> srv
      | Some sim \<Rightarrow>
          srv\<lparr>heap := (heap srv)[state sim := (heap srv ! state sim)\<lparr>isPaused := False\<rparr>]\<rparr>)"

definition handleStopSimulation :: "string \<Rightarrow> server \<Rightarrow> server" where
  "handleStopSimulation clientId srv =
     (case activeSimulations srv clientId of
        None \<Rightarrow> srv
      | Some sim \<Rightarrow>
          (clearInterval (interval sim) srv)
            \<lparr>activeSimulations := (activeSimulations srv)(clientId := None)\<rparr>)"

definition handleUpdateSpeed :: "string \<Rightarrow> jsnum \<Rightarrow> server \<Rightarrow> server" where
  "handleUpdateSpeed clientId spd srv =
     (case activeSimulations srv clientId of
        None \<Rightarrow> srv
      | Some sim \<Rightarrow>
          srv\<lparr>heap := (heap srv)[state sim := (heap srv ! state sim)\<lparr>speed := spd\<rparr>]\<rparr>)"

text \<open>
  The dispatch on the type of a parsed message. \<open>ws.id\<close> is falsy when it is
  \<open>undefined\<close> or the empty string; \<open>typeof data.speed === 'number'\<close> holds when the
  field is present.
\<close>

definition with_id :: "WebSocketWithId \<Rightarrow> (string \<Rightarrow> server \<Rightarrow> server) \<Rightarrow> server \<Rightarrow> server" where
  "with_id ws handler srv =
     (case ws_id ws of
        None \<Rightarrow> srv
      | Some i \<Rightarrow> if i = [] then srv else handler i srv)"

definition onMessage :: "WebSocketWithId \<Rightarrow> WebSocketMessage \<Rightarrow> nat \<Rightarrow> server \<Rightarrow> server" where
  "onMessage ws data now srv =
     (if msg_type data = ''START_SIMULATION'' then handleStartSimulation ws data now srv
      else if msg_type data = ''PAUSE_SIMULATION'' then with_id ws handlePauseSimulation srv
      else if msg_type data = ''RESUME_SIMULATION'' then with_id ws handleResumeSimulation srv
      else if msg_type data = ''STOP_SIMULATION'' then with_id ws handleStopSimulation srv
      else if msg_type data = ''UPDATE_SPEED''
        then (case msg_speed data of
                None \<Rightarrow> srv
              | Some v \<Rightarrow> with_id ws (\<lambda>i. handleUpdateSpeed i v) srv)
      else srv)"

text \<open>The \<open>close\<close> handler of a socket.\<close>

definition onClose :: "WebSocketWithId \<Rightarrow> server \<Rightarrow> server" where
  "onClose ws srv =
     (case ws_id ws of
        None \<Rightarrow> srv
      | Some i \<Rightarrow>
          if i = [] then srv
          else
            (case activeSimulations srv i of
               None \<Rightarrow> srv
             | Some sim \<Rightarrow>
                 (clearInterval (interval sim) srv)
                   \<lparr>activeSimulations := (activeSimulations srv)(i := None)\<rparr>))"

section \<open>Runs\<close>

text \<open>\<open>n\<close> consecutive calls of \<open>updateDronePosition\<close> on one state object.\<close>

fun advances :: "nat \<Rightarrow> SimulationState \<Rightarrow> js_error + SimulationState" where
  "advances 0 st = Inr st"
| "advances (Suc n) st =
     (case updateDronePosition st of Inl e \<Rightarrow> Inl e | Inr st' \<Rightarrow> advances n st')"

text \<open>\<open>n\<close> consecutive firings of the interval \<open>h\<close>.\<close>

fun ticks :: "nat \<Rightarrow> nat \<Rightarrow> server \<Rightarrow> js_error + server" where
  "ticks 0 h srv = Inr srv"
| "ticks (Suc n) h srv =
     (case intervalCallback h srv of Inl e \<Rightarrow> Inl e | Inr srv' \<Rightarrow> ticks n h srv')"

text \<open>Firings of the intervals \<open>hs\<close>, of any sessions, in this order.\<close>

fun fires :: "nat list \<Rightarrow> server \<Rightarrow> js_error + server" where
  "fires [] srv = Inr srv"
| "fires (h # hs) srv =
     (case intervalCallback h srv of Inl e \<Rightarrow> Inl e | Inr srv' \<Rightarrow> fires hs srv')"

text \<open>
  The servers that the events of the program produce from the initial one: a message
  from a socket, the close of a socket, the firing of an interval.
\<close>

inductive reachable :: "server \<Rightarrow> bool" where
  init: "reachable initial_server"
| message: "reachable srv \<Longrightarrow> reachable (onMessage ws data now srv)"
| close: "reachable srv \<Longrightarrow> reachable (onClose ws srv)"
| tick: "reachable srv \<Longrightarrow> intervalCallback h srv = Inr srv' \<Longrightarrow> reachable srv'"

text \<open>The route and the start message of the scenario with two waypoints.\<close>

definition route01 :: "Coordinate list" where
  "route01 = [\<lparr>lat = Fin 0, lng = Fin 0\<rparr>, \<lparr>lat = Fin 0, lng = Fin 1\<rparr>]"

definition start_msg :: "Coordinate list option \<Rightarrow> jsnum option \<Rightarrow> WebSocketMessage" where
  "start_msg wps spd =
     \<lparr>msg_type = ''START_SIMULATION'', msg_waypoints = wps, msg_speed = spd\<rparr>"

definition socket :: "string \<Rightarrow> WebSocketWithId" where
  "socket i = \<lparr>ws_id = Some i\<rparr>"

definition one_point :: "Coordinate list" where
  "one_point = [\<lparr>lat = Fin 0, lng = Fin 0\<rparr>]"

text \<open>The server after the socket \<open>c\<close> has started the route above with speed \<open>1\<close>.\<close>

definition running01 :: server where
  "running01 =
     handleStartSimulation (socket ''c'') (start_msg (Some route01) (Some (Fin 1))) 0
       initial_server"

text \<open>A state whose next step overshoots the only segment of the route by \<open>1\<close>.\<close>

definition overshoot01 :: SimulationState where
  "overshoot01 = initialState route01 (Some (Fin 200000)) 0"

text \<open>The server above after the first firing of its interval.\<close>

definition ticked01 :: server where
  "ticked01 =
     \<lparr>heap = [(initialState route01 (Some (Fin 1)) 0)
                \<lparr>progress := Fin double_00001,
                 currentPosition := \<lparr>lat = Fin 0, lng = Fin double_00001\<rparr>\<rparr>],
      timers = [Some (''c'', 0)],
      activeSimulations = [''c'' \<mapsto> \<lparr>state = 0, interval = 0\<rparr>],
      sent = [(''c'', SIMULATION_STARTED \<lparr>lat = Fin 0, lng = Fin 0\<rparr>),
              (''c'', POSITION_UPDATE \<lparr>lat = Fin 0, lng = Fin double_00001\<rparr>
                        (Fin double_00001) 0 False)]\<rparr>"

text \<open>
  The same route started with speed \<open>200000\<close>, and the server after the first firing
  of the interval, which ends the only segment.
\<close>

definition fast01 :: server where
  "fast01 =
     handleStartSimulation (socket ''c'') (start_msg (Some route01) (Some (Fin 200000))) 0
       initial_server"

definition arrived01 :: server where
  "arrived01 =
     \<lparr>heap = [(initialState route01 (Some (Fin 200000)) 0)
                \<lparr>currentPosition := \<lparr>lat = Fin 0, lng = Fin 1\<rparr>,
                 currentWaypointIndex := 1,
                 nextWaypointIndex := 2\<rparr>],
      timers = [Some (''c'', 0)],
      activeSimulations = [''c'' \<mapsto> \<lparr>state = 0, interval = 0\<rparr>],
      sent = [(''c'', SIMULATION_STARTED \<lparr>lat = Fin 0, lng = Fin 0\<rparr>),
              (''c'', POSITION_UPDATE \<lparr>lat = Fin 0, lng = Fin 1\<rparr> (Fin 0) 1 False)]\<rparr>"

text \<open>
  A route whose two waypoints are the same point, started with speed \<open>-1\<close>; the same
  route started with the default speed and then given speed \<open>0\<close>; the same route
  started with speed \<open>1\<close>.
\<close>

definition twice_origin :: "Coordinate list" where
  "twice_origin = [\<lparr>lat = Fin 0, lng = Fin 0\<rparr>, \<lparr>lat = Fin 0, lng = Fin 0\<rparr>]"

definition backward00 :: SimulationState where
  "backward00 = initialState twice_origin (Some (Fin (- 1))) 0"

definition halted00 :: SimulationState where
  "halted00 = (initialState twice_origin None 0)\<lparr>speed := Fin 0\<rparr>"

definition forward00 :: SimulationState where
  "forward00 = initialState twice_origin (Some (Fin 1)) 0"

definition crawl00 :: SimulationState where
  "crawl00 = initialState twice_origin (Some (Fin (1 / 2 ^ 1074))) 0"

text \<open>The route above started with the smallest positive double as its speed.\<close>

definition crawl01 :: SimulationState where
  "crawl01 = initialState route01 (Some (Fin (1 / 2 ^ 1074))) 0"

text \<open>
  A route from longitude \<open>1\<close> to longitude \<open>2 ^ - 60\<close>, started with speed
  \<open>200000\<close>, and the server after the first firing of the interval, which ends the
  only segment.
\<close>

definition near01 :: "Coordinate list" where
  "near01 = [\<lparr>lat = Fin 0, lng = Fin 1\<rparr>, \<lparr>lat = Fin 0, lng = Fin (1 / 2 ^ 60)\<rparr>]"

definition near_fast :: server where
  "near_fast =
     handleStartSimulation (socket ''c'') (start_msg (Some near01) (Some (Fin 200000))) 0
       initial_server"

definition near_arrived :: server where
  "near_arrived =
     \<lparr>heap = [(initialState near01 (Some (Fin 200000)) 0)
                \<lparr>currentPosition := \<lparr>lat = Fin 0, lng = Fin 0\<rparr>,
                 currentWaypointIndex := 1,
                 nextWaypointIndex := 2\<rparr>],
      timers = [Some (''c'', 0)],
      activeSimulations = [''c'' \<mapsto> \<lparr>state = 0, interval = 0\<rparr>],
      sent = [(''c'', SIMULATION_STARTED \<lparr>lat = Fin 0, lng = Fin 1\<rparr>),
              (''c'', POSITION_UPDATE \<lparr>lat = Fin 0, lng = Fin 0\<rparr> (Fin 0) 1 False)]\<rparr>"

section \<open>Invariants\<close>

text \<open>A number that rounding leaves as it is: a double or a special value.\<close>

fun dbl :: "jsnum \<Rightarrow> bool" where
  "dbl (Fin y) = (fl y = Fin y)"
| "dbl PInf = True"
| "dbl NInf = True"
| "dbl NaN = True"

text \<open>
  What holds of every state object: the two indices are adjacent and inside the route;
  the progress is a double; inside the route the stored progress is short of the end of
  the segment; at the end of the route the progress is zero and the position is the one
  interpolated at ratio \<open>1\<close> on the last segment; the completion flag is set only at
  the end of the route.
\<close>

definition session_inv :: "SimulationState \<Rightarrow> bool" where
  "session_inv st =
     (nextWaypointIndex st = currentWaypointIndex st + 1
      \<and> nextWaypointIndex st \<le> length (waypoints st)
      \<and> 2 \<le> length (waypoints st)
      \<and> dbl (progress st)
      \<and> (nextWaypointIndex st < length (waypoints st) \<longrightarrow>
           \<not> jge (tick_ratio (progress st)
                    (calculateDistance (waypoints st ! currentWaypointIndex st)
                       (waypoints st ! nextWaypointIndex st))) (Fin 1))
      \<and> (nextWaypointIndex st = length (waypoints st) \<longrightarrow>
           progress st = Fin 0
           \<and> currentPosition st =
               interpolate (waypoints st ! (currentWaypointIndex st - 1))
                 (waypoints st ! currentWaypointIndex st) (Fin 1))
      \<and> (isComplete st = None
          \<or> isComplete st = Some True \<and> nextWaypointIndex st = length (waypoints st)))"

definition heap_inv :: "server \<Rightarrow> bool" where
  "heap_inv srv = (\<forall>st \<in> set (heap srv). session_inv st)"

text \<open>
  The registry and the armed intervals mirror each other: an entry names a state object
  and an armed interval whose callback captured the entry's socket and that object, and
  every armed interval is the one of the entry of the socket it captured.
\<close>

definition consistent :: "server \<Rightarrow> bool" where
  "consistent srv =
     ((\<forall>i sim. activeSimulations srv i = Some sim \<longrightarrow>
          state sim < length (heap srv) \<and> interval sim < length (timers srv)
          \<and> timers srv ! interval sim = Some (i, state sim))
      \<and> (\<forall>h i a. h < length (timers srv) \<longrightarrow> timers srv ! h = Some (i, a) \<longrightarrow>
          activeSimulations srv i = Some \<lparr>state = a, interval = h\<rparr>))"

text \<open>
  A registered session whose speed is zero and whose indices, progress and completion
  flag are those of \<open>st0\<close>.
\<close>

definition stalled :: "string \<Rightarrow> ActiveSimulation \<Rightarrow> SimulationState \<Rightarrow> server \<Rightarrow> bool" where
  "stalled c sim st0 srv =
     (consistent srv \<and> heap_inv srv \<and> activeSimulations srv c = Some sim
      \<and> speed (heap srv ! state sim) = Fin 0
      \<and> waypoints (heap srv ! state sim) = waypoints st0
      \<and> nextWaypointIndex (heap srv ! state sim) = nextWaypointIndex st0
      \<and> currentWaypointIndex (heap srv ! state sim) = currentWaypointIndex st0
      \<and> progress (heap srv ! state sim) = progress st0
      \<and> isComplete (heap srv ! state sim) = None)"

text \<open>
  A state inside its route whose next step does not end the segment and stores the
  progress it already has: \<open>progress + step\<close> rounds to \<open>progress\<close>.
\<close>

definition absorbed :: "SimulationState \<Rightarrow> bool" where
  "absorbed st =
     (nextWaypointIndex st < length (waypoints st)
      \<and> currentWaypointIndex st < length (waypoints st)
      \<and> \<not> jge (tick_ratio (jadd (progress st) (tick_step (speed st)))
                (calculateDistance (waypoints st ! currentWaypointIndex st)
                   (waypoints st ! nextWaypointIndex st))) (Fin 1)
      \<and> jadd (progress st) (tick_step (speed st)) = progress st)"

text \<open>
  How many doubles lie above a progress: the doubles are multiples of \<open>2 ^ - 1074\<close>
  below \<open>2 ^ 1024\<close>.
\<close>

fun headroom :: "jsnum \<Rightarrow> nat" where
  "headroom (Fin y) = nat (2 ^ 2098 - \<lfloor>y * 2 ^ 1074\<rfloor>)"
| "headroom PInf = 0"
| "headroom NInf = 0"
| "headroom NaN = 0"

text \<open>
  The states of a run on the route \<open>wps\<close> with the speed \<open>v\<close> that is not
  complete.
\<close>

definition on_route :: "Coordinate list \<Rightarrow> jsnum \<Rightarrow> SimulationState \<Rightarrow> bool" where
  "on_route wps v st =
     (waypoints st = wps \<and> speed st = v \<and> isComplete st = None
      \<and> dbl (progress st) \<and> jge (progress st) (Fin 0)
      \<and> nextWaypointIndex st = currentWaypointIndex st + 1
      \<and> nextWaypointIndex st \<le> length wps)"

text \<open>
  What a run from a state does: it completes, or it reaches an absorbed state without
  having completed before.
\<close>

definition settles :: "SimulationState \<Rightarrow> bool" where
  "settles st =
     ((\<exists>n st'. advances n st = Inr st' \<and> isComplete st' = Some True)
      \<or> (\<exists>n st'. advances n st = Inr st' \<and> absorbed st'
            \<and> (\<forall>k \<le> n. \<exists>s. advances k st = Inr s \<and> isComplete s = None)))"

section \<open>Rounding to doubles\<close>

lemma pow2_powr: "pow2 e = 2 powr (of_int e)"
  by (simp add: pow2_def powr_int)

lemma pow2_pos [simp]: "0 < pow2 e"
  by (simp add: pow2_powr)

lemma pow2_nonzero [simp]: "pow2 e \<noteq> 0" "\<not> pow2 e \<le> 0"
  using pow2_pos [of e] by linarith+

lemma pow2_nonneg [simp]: "0 \<le> pow2 e"
  using pow2_pos [of e] by linarith

lemma pow2_abs [simp]: "\<bar>pow2 e\<bar> = pow2 e"
  using pow2_pos [of e] by linarith

lemma pow2_add: "pow2 (a + b) = pow2 a * pow2 b"
  by (simp add: pow2_powr powr_add)

lemma pow2_mono: "a \<le> b \<Longrightarrow> pow2 a \<le> pow2 b"
  by (simp add: pow2_powr)

lemma pow2_nat: "0 \<le> e \<Longrightarrow> pow2 e = 2 ^ nat e"
  by (simp add: pow2_def)

lemma rne_of_int [simp]: "rne (of_int k) = k"
  by (simp add: rne_def)

lemma rne_zero [simp]: "rne 0 = 0"
  by (simp add: rne_def)

lemma rne_lower: "of_int a \<le> r \<Longrightarrow> a \<le> rne r"
proof -
  assume "of_int a \<le> r"
  then have "a \<le> \<lfloor>r\<rfloor>" by (simp add: le_floor_iff)
  then show ?thesis by (auto simp: rne_def Let_def)
qed

lemma rne_upper: "r \<le> of_int b \<Longrightarrow> rne r \<le> b"
proof -
  assume b: "r \<le> of_int b"
  show ?thesis
  proof (cases "r = of_int b")
    case True
    then show ?thesis by simp
  next
    case False
    with b have "r < of_int b" by simp
    then have "\<lfloor>r\<rfloor> < b" by (simp add: floor_less_iff)
    then show ?thesis by (auto simp: rne_def Let_def)
  qed
qed

lemma binade_ge: "- 1022 \<le> binade x"
  by (simp add: binade_def)

lemma binade_normal:
  assumes "pow2 e \<le> \<bar>x\<bar>" and "\<bar>x\<bar> < pow2 (e + 1)" and "- 1022 \<le> e"
  shows "binade x = e"
proof -
  from assms(1) have pos: "0 < \<bar>x\<bar>" using pow2_pos [of e] by linarith
  from assms have "\<lfloor>log 2 \<bar>x\<bar>\<rfloor> = e"
    using floor_log_eq_powr_iff [of "\<bar>x\<bar>" 2 e] pos by (simp add: pow2_powr)
  with assms(3) show ?thesis by (simp add: binade_def)
qed

lemma binade_subnormal:
  assumes "x \<noteq> 0" and "\<bar>x\<bar> < pow2 (- 1022)"
  shows "binade x = - 1022"
proof -
  from assms(1) have pos: "0 < \<bar>x\<bar>" by simp
  have "\<lfloor>log 2 \<bar>x\<bar>\<rfloor> < - 1022"
  proof -
    from assms(2) have "\<bar>x\<bar> < 2 powr (- 1022)" by (simp add: pow2_powr)
    with pos have "log 2 \<bar>x\<bar> < - 1022" by (simp add: log_less_iff)
    then show ?thesis by (simp add: floor_less_iff)
  qed
  then show ?thesis by (simp add: binade_def)
qed

text \<open>The bounds of the binade.\<close>

lemma binade_upper:
  assumes "x \<noteq> 0"
  shows "\<bar>x\<bar> < pow2 (binade x + 1)"
proof -
  from assms have pos: "0 < \<bar>x\<bar>" by simp
  have "\<bar>x\<bar> < 2 powr (of_int (\<lfloor>log 2 \<bar>x\<bar>\<rfloor> + 1))"
    using floor_log_eq_powr_iff [of "\<bar>x\<bar>" 2 "\<lfloor>log 2 \<bar>x\<bar>\<rfloor>"] pos by simp
  also have "\<dots> \<le> pow2 (binade x + 1)"
    unfolding pow2_powr by (simp add: binade_def)
  finally show ?thesis .
qed

lemma binade_lower:
  assumes "x \<noteq> 0" and "- 1022 < binade x"
  shows "pow2 (binade x) \<le> \<bar>x\<bar>"
proof -
  from assms(1) have pos: "0 < \<bar>x\<bar>" by simp
  from assms(2) have "binade x = \<lfloor>log 2 \<bar>x\<bar>\<rfloor>" by (simp add: binade_def max_def split: if_splits)
  then show ?thesis
    using floor_log_eq_powr_iff [of "\<bar>x\<bar>" 2 "\<lfloor>log 2 \<bar>x\<bar>\<rfloor>"] pos by (simp add: pow2_powr)
qed


text \<open>The rounded significand has at most 53 bits.\<close>

lemma scaled_bound:
  assumes "x \<noteq> 0"
  shows "\<bar>x / pow2 (binade x - 52)\<bar> < 2 ^ 53"
proof -
  have "pow2 (binade x + 1) = pow2 (binade x - 52) * pow2 53"
    using pow2_add [of "binade x - 52" 53] by (simp add: add.commute)
  also have "pow2 53 = 2 ^ 53" by (simp add: pow2_def)
  finally have "\<bar>x\<bar> < pow2 (binade x - 52) * 2 ^ 53"
    using binade_upper [OF assms] by simp
  then show ?thesis
    by (simp add: abs_divide pos_divide_less_eq mult.commute)
qed

lemma significand_bound:
  assumes "x \<noteq> 0"
  shows "\<bar>rne (x / pow2 (binade x - 52))\<bar> \<le> 2 ^ 53"
proof -
  from scaled_bound [OF assms]
  have "x / pow2 (binade x - 52) < 2 ^ 53 \<and> - (x / pow2 (binade x - 52)) < 2 ^ 53"
    by (simp only: abs_less_iff)
  then have "of_int (- (2 ^ 53)) \<le> x / pow2 (binade x - 52)"
    "x / pow2 (binade x - 52) \<le> of_int (2 ^ 53)"
    by simp_all
  from rne_lower [OF this(1)] rne_upper [OF this(2)] show ?thesis by linarith
qed

lemma fl_not_NaN [simp]: "fl x \<noteq> NaN"
  by (simp add: fl_def Let_def)

lemma fl_zero [simp]: "fl 0 = Fin 0"
  by (simp add: fl_def)

text \<open>A finite result written out.\<close>

lemma fl_Fin:
  assumes "fl x = Fin y"
  shows "y = of_int (rne (x / pow2 (binade x - 52))) * pow2 (binade x - 52)"
    and "\<bar>y\<bar> < 2 ^ 1024"
proof -
  show "y = of_int (rne (x / pow2 (binade x - 52))) * pow2 (binade x - 52)"
  proof (cases "x = 0")
    case True
    with assms show ?thesis by simp
  next
    case False
    with assms show ?thesis by (simp add: fl_def Let_def split: if_splits)
  qed
  show "\<bar>y\<bar> < 2 ^ 1024"
  proof (cases "x = 0")
    case True
    with assms show ?thesis by simp
  next
    case False
    with assms show ?thesis by (simp add: fl_def Let_def split: if_splits)
  qed
qed

text \<open>Evaluation on a number whose binade is known.\<close>

lemma fl_eval:
  assumes "pow2 e \<le> \<bar>x\<bar>" and "\<bar>x\<bar> < pow2 (e + 1)" and "- 1022 \<le> e"
    and "rne (x / pow2 (e - 52)) = m" and "\<bar>of_int m * pow2 (e - 52)\<bar> < 2 ^ 1024"
  shows "fl x = Fin (of_int m * pow2 (e - 52))"
proof -
  from assms(1) have "x \<noteq> 0" using pow2_pos [of e] by auto
  moreover from assms(1-3) have "binade x = e" by (rule binade_normal)
  ultimately show ?thesis using assms(4,5) by (simp add: fl_def Let_def)
qed

lemma fl_tiny:
  assumes "\<bar>r\<bar> < 1 / 2"
  shows "fl (r * pow2 (- 1074)) = Fin 0"
proof (cases "r = 0")
  case True
  then show ?thesis by simp
next
  case False
  let ?x = "r * pow2 (- 1074)"
  from False have nz: "?x \<noteq> 0" by simp
  have "pow2 (- 1022) = pow2 52 * pow2 (- 1074)" using pow2_add [of 52 "- 1074"] by simp
  moreover from assms have "\<bar>r\<bar> < pow2 52" by (simp add: pow2_def)
  ultimately have "\<bar>?x\<bar> < pow2 (- 1022)"
    by (simp add: abs_mult)
  with nz have b: "binade ?x = - 1022" by (rule binade_subnormal)
  have "rne r = 0"
  proof (cases "0 \<le> r")
    case True
    with assms have "\<lfloor>r\<rfloor> = 0" by (simp add: floor_eq_iff)
    with assms True show ?thesis by (simp add: rne_def)
  next
    case neg: False
    with assms have "\<lfloor>r\<rfloor> = - 1" by (simp add: floor_eq_iff)
    with assms neg show ?thesis by (simp add: rne_def)
  qed
  with nz b show ?thesis by (simp add: fl_def Let_def)
qed


lemma pow2_strict_mono: "a < b \<Longrightarrow> pow2 a < pow2 b"
  by (simp add: pow2_powr)

text \<open>A number that is an integer multiple of the unit of its own binade rounds to itself.\<close>

lemma fl_exact:
  assumes "y / pow2 (binade y - 52) = of_int k" and "\<bar>y\<bar> < 2 ^ 1024"
  shows "fl y = Fin y"
proof (cases "y = 0")
  case True
  then show ?thesis by simp
next
  case False
  from assms(1) have "of_int k * pow2 (binade y - 52) = y" by (simp add: field_simps)
  with False assms show ?thesis by (simp add: fl_def Let_def)
qed

text \<open>Rounding is idempotent: its finite results are doubles.\<close>

lemma fl_idem:
  assumes "fl x = Fin y"
  shows "fl y = Fin y"
proof (cases "y = 0")
  case True
  then show ?thesis by simp
next
  case False
  define e where "e = binade x"
  define e2 where "e2 = binade y"
  define q where "q = pow2 (e - 52)"
  define q2 where "q2 = pow2 (e2 - 52)"
  define m where "m = rne (x / q)"
  from assms False have x: "x \<noteq> 0" by auto
  from fl_Fin [OF assms] have y: "y = of_int m * q" and small: "\<bar>y\<bar> < 2 ^ 1024"
    by (simp_all add: m_def q_def e_def)
  from significand_bound [OF x] have m: "\<bar>m\<bar> \<le> 2 ^ 53" by (simp add: m_def q_def e_def)
  have qpos: "0 < q" "0 < q2" by (simp_all add: q_def q2_def)
  have ege: "- 1022 \<le> e" by (simp add: e_def binade_ge)
  have top: "pow2 (e + 1) = 2 ^ 53 * q"
    using pow2_add [of 53 "e - 52"] by (simp add: pow2_def add.commute q_def)
  from m have "\<bar>of_int m :: real\<bar> \<le> 2 ^ 53"
    by (metis of_int_abs of_int_le_iff of_int_numeral of_int_power)
  then have "\<bar>of_int m\<bar> * q \<le> 2 ^ 53 * q"
    using qpos(1) by (simp add: mult_right_mono)
  with top qpos(1) have le: "\<bar>y\<bar> \<le> pow2 (e + 1)" by (simp add: y abs_mult)
  have e2: "e2 \<le> e + 1"
  proof (rule ccontr)
    assume "\<not> e2 \<le> e + 1"
    then have gt: "e + 1 < e2" by simp
    with ege have "- 1022 < binade y" by (simp add: e2_def)
    from binade_lower [OF False this] le have "pow2 e2 \<le> pow2 (e + 1)" by (simp add: e2_def)
    with pow2_strict_mono [OF gt] show False by linarith
  qed
  have "\<exists>k. y / q2 = of_int k"
  proof (cases "e2 \<le> e")
    case True
    have "q = pow2 (e - e2) * q2"
      using pow2_add [of "e - e2" "e2 - 52"] by (simp add: q_def q2_def)
    moreover from True have "pow2 (e - e2) = of_int (2 ^ nat (e - e2))"
      by (simp add: pow2_def)
    ultimately have "y / q2 = of_int m * of_int (2 ^ nat (e - e2))"
      using qpos(2) by (simp add: y)
    then have "y / q2 = of_int (m * 2 ^ nat (e - e2))" by simp
    then show ?thesis by blast
  next
    case nle: False
    with e2 have eq: "e2 = e + 1" by simp
    with ege have "- 1022 < binade y" by (simp add: e2_def)
    from binade_lower [OF False this] le eq have "\<bar>y\<bar> = pow2 (e + 1)" by (simp add: e2_def)
    then have cases: "y = pow2 (e + 1) \<or> y = - pow2 (e + 1)" by linarith
    have "pow2 (e + 1) = pow2 52 * q2"
      using pow2_add [of 52 "e2 - 52"] eq by (simp add: q2_def add.commute)
    then have "pow2 (e + 1) / q2 = of_int (2 ^ 52)"
      using qpos(2) by (simp add: pow2_def)
    with cases have "y / q2 = of_int (2 ^ 52) \<or> y / q2 = of_int (- (2 ^ 52))"
      by auto
    then show ?thesis by blast
  qed
  then obtain k where "y / pow2 (binade y - 52) = of_int k"
    unfolding q2_def e2_def ..
  then show ?thesis using small by (rule fl_exact)
qed

text \<open>Every finite result lies on the grid of the smallest subnormal.\<close>

lemma fl_grid:
  assumes "fl x = Fin y"
  shows "\<exists>k. y = of_int k * pow2 (- 1074)"
proof -
  let ?e = "binade x"
  from fl_Fin(1) [OF assms] have y: "y = of_int (rne (x / pow2 (?e - 52))) * pow2 (?e - 52)" .
  have "pow2 (?e - 52) = pow2 (?e + 1022) * pow2 (- 1074)"
    using pow2_add [of "?e + 1022" "- 1074"] by simp
  moreover from binade_ge [of x] have "pow2 (?e + 1022) = of_int (2 ^ nat (?e + 1022))"
    by (simp add: pow2_def)
  ultimately have "y = of_int (rne (x / pow2 (?e - 52)) * 2 ^ nat (?e + 1022)) * pow2 (- 1074)"
    using y by simp
  then show ?thesis by blast
qed

lemma rne_minus: "rne (- r) = - rne r"
proof (cases "r = of_int \<lfloor>r\<rfloor>")
  case True
  then obtain k where "r = of_int k" ..
  then have "- r = of_int (- k)" by simp
  with \<open>r = of_int k\<close> show ?thesis by (simp only: rne_of_int)
next
  case False
  then have lt: "of_int \<lfloor>r\<rfloor> < r" using of_int_floor_le [of r] by linarith
  from False have "\<lfloor>- r\<rfloor> = - \<lfloor>r\<rfloor> - 1" by (simp add: floor_minus ceiling_altdef)
  with lt show ?thesis by (auto simp: rne_def Let_def)
qed

lemma binade_minus: "binade (- x) = binade x"
  by (simp add: binade_def)

lemma fl_minus: "fl (- x) = (case fl x of Fin y \<Rightarrow> Fin (- y) | PInf \<Rightarrow> NInf | NInf \<Rightarrow> PInf | NaN \<Rightarrow> NaN)"
  by (simp add: fl_def Let_def binade_minus rne_minus)

lemma fl_1_10000: "fl (1 / 10000) = Fin double_0001"
proof -
  have "fl (1 / 10000) = Fin (of_int 7378697629483821 * pow2 (- 14 - 52))"
    by (rule fl_eval) (simp_all add: pow2_def rne_def)
  then show ?thesis by (simp add: pow2_def double_0001_def)
qed

lemma fl_1_100000: "fl (1 / 100000) = Fin double_00001"
proof -
  have "fl (1 / 100000) = Fin (of_int 5902958103587057 * pow2 (- 17 - 52))"
    by (rule fl_eval) (simp_all add: pow2_def rne_def)
  then show ?thesis by (simp add: pow2_def double_00001_def)
qed

lemma fl_double_0001: "fl double_0001 = Fin double_0001"
  using fl_1_10000 by (rule fl_idem)

lemma fl_double_00001: "fl double_00001 = Fin double_00001"
  using fl_1_100000 by (rule fl_idem)

lemma fl_tenth_0001: "fl (double_0001 / 10) = Fin double_00001"
proof -
  have "fl (double_0001 / 10) = Fin (of_int 5902958103587057 * pow2 (- 17 - 52))"
    by (rule fl_eval) (simp_all add: pow2_def rne_def double_0001_def)
  then show ?thesis by (simp add: pow2_def double_00001_def)
qed

lemma fl_200000_0001: "fl (200000 * double_0001) = Fin 20"
proof -
  have "fl (200000 * double_0001) = Fin (of_int 5629499534213120 * pow2 (4 - 52))"
    by (rule fl_eval) (simp_all add: pow2_def rne_def double_0001_def)
  then show ?thesis by (simp add: pow2_def)
qed

lemma fl_one: "fl 1 = Fin 1"
proof -
  have "fl 1 = Fin (of_int 4503599627370496 * pow2 (0 - 52))"
    by (rule fl_eval) (simp_all add: pow2_def rne_def)
  then show ?thesis by (simp add: pow2_def)
qed

lemma fl_two: "fl 2 = Fin 2"
proof -
  have "fl 2 = Fin (of_int 4503599627370496 * pow2 (1 - 52))"
    by (rule fl_eval) (simp_all add: pow2_def rne_def)
  then show ?thesis by (simp add: pow2_def)
qed

lemma fl_minus_one: "fl (- 1) = Fin (- 1)"
  by (simp add: fl_minus fl_one)

lemma fl_near_one: "fl (1 / 2 ^ 60 - 1) = Fin (- 1)"
proof -
  have "fl (1 / 2 ^ 60 - 1) = Fin (of_int (- 9007199254740992) * pow2 (- 1 - 52))"
    by (rule fl_eval) (simp_all add: pow2_def rne_def)
  then show ?thesis by (simp add: pow2_def)
qed

lemma fl_tiny_0001: "fl (1 / 2 ^ 1074 * double_0001) = Fin 0"
proof -
  have "\<bar>double_0001\<bar> < 1 / 2" by (simp add: double_0001_def)
  from fl_tiny [OF this] show ?thesis by (simp add: pow2_def mult.commute)
qed

lemma double_bounds: "0 < double_0001" "0 < double_00001" "double_00001 < 1"
  by (simp_all add: double_0001_def double_00001_def)

text \<open>Rounding a number above a double that is not negative does not go below it.\<close>

lemma binade_mono:
  assumes "0 < p" and "p \<le> y"
  shows "binade p \<le> binade y"
proof -
  from assms have "log 2 \<bar>p\<bar> \<le> log 2 \<bar>y\<bar>" by simp
  then have "\<lfloor>log 2 \<bar>p\<bar>\<rfloor> \<le> \<lfloor>log 2 \<bar>y\<bar>\<rfloor>" by (rule floor_mono)
  then show ?thesis by (simp add: binade_def)
qed

lemma fl_pos_cases:
  assumes "0 < y"
  shows "fl y = PInf \<or> fl y = Fin (of_int (rne (y / pow2 (binade y - 52))) * pow2 (binade y - 52))"
  using assms by (simp add: fl_def Let_def)

lemma fl_mono_dbl:
  assumes dp: "fl p = Fin p" and p0: "0 \<le> p" and py: "p \<le> y"
  shows "fl y = PInf \<or> (\<exists>z. fl y = Fin z \<and> p \<le> z)"
proof (cases "y = 0")
  case True
  with p0 py have "p = 0" by simp
  with True show ?thesis by simp
next
  case False
  with p0 py have y0: "0 < y" by simp
  define e where "e = binade y"
  define q where "q = pow2 (e - 52)"
  define m where "m = rne (y / q)"
  have q0: "0 < q" by (simp add: q_def)
  have "p \<le> of_int m * q"
  proof (cases "p = 0")
    case True
    have "0 \<le> y / q" using y0 q0 by simp
    then have "of_int 0 \<le> y / q" by simp
    then have "0 \<le> m" unfolding m_def by (rule rne_lower)
    then have "0 \<le> of_int m * q" using q0 by simp
    with True show ?thesis by simp
  next
    case False
    with p0 have pp: "0 < p" by simp
    from binade_mono [OF pp py] have le: "binade p \<le> e" by (simp add: e_def)
    show ?thesis
    proof (cases "binade p = e")
      case True
      define mp where "mp = rne (p / pow2 (binade p - 52))"
      from fl_Fin(1) [OF dp] True have p: "p = of_int mp * q"
        by (simp add: mp_def q_def)
      then have "of_int mp = p / q" using q0 by simp
      also have "\<dots> \<le> y / q" using py q0 by (simp add: divide_right_mono)
      finally have "mp \<le> m" unfolding m_def by (rule rne_lower)
      then have "of_int mp * q \<le> of_int m * q" using q0 by simp
      with p show ?thesis by simp
    next
      case False
      with le have lt: "binade p < e" by simp
      with binade_ge [of p] have "- 1022 < binade y" by (simp add: e_def)
      with binade_lower [of y] y0 have low: "pow2 e \<le> y" by (simp add: e_def)
      have "pow2 e = pow2 (e - 52) * pow2 52"
        using pow2_add [of "e - 52" 52] by simp
      also have "pow2 52 = 2 ^ 52" by (simp add: pow2_def)
      finally have pe: "pow2 e = q * 2 ^ 52" by (simp add: q_def)
      then have "of_int (2 ^ 52) = pow2 e / q" using q0 by simp
      also have "\<dots> \<le> y / q" using low q0 by (simp add: divide_right_mono)
      finally have "2 ^ 52 \<le> m" unfolding m_def by (rule rne_lower)
      then have "of_int (2 ^ 52) * q \<le> of_int m * q" using q0 by (simp only: mult_le_cancel_right_pos of_int_le_iff)
      then have big: "pow2 e \<le> of_int m * q" using pe by (simp add: mult.commute)
      from binade_upper [of p] pp have "p < pow2 (binade p + 1)" by simp
      also from lt have "\<dots> \<le> pow2 e" by (intro pow2_mono) simp
      finally show ?thesis using big by simp
    qed
  qed
  with fl_pos_cases [OF y0] show ?thesis
    by (auto simp: e_def q_def m_def)
qed

section \<open>The invariants hold in every reachable server\<close>

lemma ratio_zero_not_ge: "\<not> jge (tick_ratio (Fin 0) d) (Fin 1)"
  by (cases d) (simp_all add: tick_ratio_def)

lemma ratio_ge_one: "jge (tick_ratio p d) (Fin 1) \<Longrightarrow> tick_ratio p d = Fin 1"
  unfolding tick_ratio_def by (cases "jdiv p d") (simp_all add: min_def split: if_splits)

lemma dbl_fl [simp]: "dbl (fl x)"
  by (cases "fl x") (simp_all add: fl_idem)

lemma dbl_jadd [simp]: "dbl (jadd a b)"
  by (cases a; cases b) simp_all

lemma dbl_zero [simp]: "dbl (Fin 0)"
  by simp

lemma jadd_zero: "dbl x \<Longrightarrow> jadd x (Fin 0) = x"
  by (cases x) simp_all

lemma session_inv_initial: "2 \<le> length wps \<Longrightarrow> session_inv (initialState wps spd now)"
  by (simp add: session_inv_def initialState_def ratio_zero_not_ge)

lemma session_inv_advance:
  assumes "session_inv st" and "updateDronePosition st = Inr st'"
  shows "session_inv st'"
proof (cases "length (waypoints st) \<le> nextWaypointIndex st")
  case True
  with assms show ?thesis by (auto simp: updateDronePosition_def session_inv_def)
next
  case False
  let ?d = "calculateDistance (waypoints st ! currentWaypointIndex st)
              (waypoints st ! nextWaypointIndex st)"
  let ?p = "jadd (progress st) (tick_step (speed st))"
  from False assms(1) have cur: "\<not> length (waypoints st) \<le> currentWaypointIndex st"
    by (simp add: session_inv_def)
  show ?thesis
  proof (cases "jge (tick_ratio ?p ?d) (Fin 1)")
    case True
    with False cur assms(2) have st': "st' = st
        \<lparr>progress := ?p,
         currentPosition := interpolate (waypoints st ! currentWaypointIndex st)
            (waypoints st ! nextWaypointIndex st) (tick_ratio ?p ?d),
         currentWaypointIndex := currentWaypointIndex st + 1,
         nextWaypointIndex := nextWaypointIndex st + 1,
         progress := Fin 0\<rparr>"
      by (simp add: updateDronePosition_def Let_def)
    from True have one: "tick_ratio ?p ?d = Fin 1" by (rule ratio_ge_one)
    with st' assms(1) False show ?thesis
      by (simp add: session_inv_def ratio_zero_not_ge)
  next
    case ge: False
    with False cur assms(2) have st': "st' = st
        \<lparr>progress := ?p,
         currentPosition := interpolate (waypoints st ! currentWaypointIndex st)
            (waypoints st ! nextWaypointIndex st) (tick_ratio ?p ?d)\<rparr>"
      by (simp add: updateDronePosition_def Let_def)
    with ge assms(1) False show ?thesis
      by (simp add: session_inv_def)
  qed
qed

lemma session_inv_fields:
  "session_inv st \<Longrightarrow> session_inv (st\<lparr>isPaused := b\<rparr>)"
  "session_inv st \<Longrightarrow> session_inv (st\<lparr>speed := v\<rparr>)"
  by (auto simp: session_inv_def)

lemma all_set_update:
  assumes "\<forall>x \<in> set xs. P x" and "a < length xs \<Longrightarrow> P v"
  shows "\<forall>x \<in> set (xs[a := v]). P x"
proof (cases "a < length xs")
  case True
  with assms show ?thesis
    using set_update_subset_insert [of xs a v] by auto
next
  case False
  with assms(1) show ?thesis by (simp add: list_update_beyond)
qed

lemma start_cases:
  "handleStartSimulation ws data now srv = srv
   \<or> (\<exists>i. handleStartSimulation ws data now srv =
          sendError i ''At least two waypoints are required'' srv)
   \<or> (\<exists>i wps srv1. 2 \<le> length wps \<and> heap srv1 = heap srv \<and>
         handleStartSimulation ws data now srv =
           srv1\<lparr>heap := heap srv1 @ [initialState wps (msg_speed data) now],
                timers := timers srv1 @ [Some (i, length (heap srv1))],
                activeSimulations := (activeSimulations srv1)
                   (i \<mapsto> \<lparr>state = length (heap srv1), interval = length (timers srv1)\<rparr>),
                sent := sent srv1 @ [(i, SIMULATION_STARTED (wps ! 0))]\<rparr>)"
proof (cases "ws_id ws")
  case None
  then show ?thesis by (simp add: handleStartSimulation_def)
next
  case (Some i)
  show ?thesis
  proof (cases "i = []")
    case True
    with Some show ?thesis by (simp add: handleStartSimulation_def)
  next
    case nonempty: False
    show ?thesis
    proof (cases "msg_waypoints data")
      case None
      with Some nonempty show ?thesis by (auto simp: handleStartSimulation_def)
    next
      case wps: (Some wps)
      show ?thesis
      proof (cases "length wps < 2")
        case True
        with Some nonempty wps show ?thesis by (auto simp: handleStartSimulation_def)
      next
        case False
        let ?srv1 = "case activeSimulations srv i of None \<Rightarrow> srv
                     | Some sim \<Rightarrow> clearInterval (interval sim) srv"
        have h: "heap ?srv1 = heap srv"
          by (simp add: clearInterval_def split: option.splits)
        from False have len: "2 \<le> length wps" by simp
        have "handleStartSimulation ws data now srv =
           ?srv1\<lparr>heap := heap ?srv1 @ [initialState wps (msg_speed data) now],
                timers := timers ?srv1 @ [Some (i, length (heap ?srv1))],
                activeSimulations := (activeSimulations ?srv1)
                   (i \<mapsto> \<lparr>state = length (heap ?srv1), interval = length (timers ?srv1)\<rparr>),
                sent := sent ?srv1 @ [(i, SIMULATION_STARTED (wps ! 0))]\<rparr>"
          using Some nonempty wps False by (simp add: handleStartSimulation_def Let_def)
        with len h show ?thesis by blast
      qed
    qed
  qed
qed

lemma heap_inv_start: "heap_inv srv \<Longrightarrow> heap_inv (handleStartSimulation ws data now srv)"
  using start_cases [of ws data now srv]
  by (auto simp: heap_inv_def session_inv_initial sendError_def)

lemma heap_inv_update:
  assumes "heap_inv srv" and "a < length (heap srv) \<Longrightarrow> session_inv v"
  shows "heap_inv (srv\<lparr>heap := (heap srv)[a := v]\<rparr>)"
  using all_set_update [of "heap srv" session_inv a v] assms by (simp add: heap_inv_def)

lemma heap_inv_nth: "heap_inv srv \<Longrightarrow> a < length (heap srv) \<Longrightarrow> session_inv (heap srv ! a)"
  by (simp add: heap_inv_def)

lemma heap_inv_pause: "heap_inv srv \<Longrightarrow> heap_inv (handlePauseSimulation c srv)"
  unfolding handlePauseSimulation_def
  by (cases "activeSimulations srv c")
    (simp_all add: heap_inv_update heap_inv_nth session_inv_fields)

lemma heap_inv_resume: "heap_inv srv \<Longrightarrow> heap_inv (handleResumeSimulation c srv)"
  unfolding handleResumeSimulation_def
  by (cases "activeSimulations srv c")
    (simp_all add: heap_inv_update heap_inv_nth session_inv_fields)

lemma heap_inv_speed: "heap_inv srv \<Longrightarrow> heap_inv (handleUpdateSpeed c v srv)"
  unfolding handleUpdateSpeed_def
  by (cases "activeSimulations srv c")
    (simp_all add: heap_inv_update heap_inv_nth session_inv_fields)

lemma heap_stop: "heap (handleStopSimulation c srv) = heap srv"
  by (simp add: handleStopSimulation_def clearInterval_def split: option.splits)

lemma heap_inv_stop: "heap_inv srv \<Longrightarrow> heap_inv (handleStopSimulation c srv)"
  by (simp add: heap_inv_def heap_stop)

lemma heap_close: "heap (onClose ws srv) = heap srv"
  by (simp add: onClose_def clearInterval_def split: option.splits)

lemma heap_inv_close: "heap_inv srv \<Longrightarrow> heap_inv (onClose ws srv)"
  by (simp add: heap_inv_def heap_close)

lemma heap_inv_with_id:
  "(\<And>i. heap_inv srv \<Longrightarrow> heap_inv (handler i srv)) \<Longrightarrow> heap_inv srv \<Longrightarrow> heap_inv (with_id ws handler srv)"
  by (simp add: with_id_def split: option.splits)

lemma heap_inv_message: "heap_inv srv \<Longrightarrow> heap_inv (onMessage ws data now srv)"
  unfolding onMessage_def
  by (simp add: heap_inv_start heap_inv_with_id heap_inv_pause heap_inv_resume heap_inv_stop
      heap_inv_speed split: option.splits)

lemma heap_callback:
  assumes "intervalCallback h srv = Inr srv'"
  shows "heap srv' = heap srv
     \<or> (\<exists>a st. a < length (heap srv) \<and> updateDronePosition (heap srv ! a) = Inr st
           \<and> heap srv' = (heap srv)[a := st])"
proof (cases "h < length (timers srv)")
  case False
  with assms show ?thesis by (simp add: intervalCallback_def)
next
  case h: True
  show ?thesis
  proof (cases "timers srv ! h")
    case None
    with h assms show ?thesis by (simp add: intervalCallback_def)
  next
    case (Some p)
    obtain i a where p: "p = (i, a)" by (cases p)
    show ?thesis
    proof (cases "a < length (heap srv) \<and> \<not> isPaused (heap srv ! a)")
      case False
      with h Some p assms show ?thesis
        by (auto simp: intervalCallback_def split: if_splits)
    next
      case True
      show ?thesis
      proof (cases "updateDronePosition (heap srv ! a)")
        case (Inl e)
        with h Some p True assms show ?thesis by (simp add: intervalCallback_def)
      next
        case (Inr st)
        with h Some p True assms have "heap srv' = (heap srv)[a := st]"
          by (auto simp: intervalCallback_def Let_def split: if_splits)
        with True Inr show ?thesis by blast
      qed
    qed
  qed
qed

lemma heap_inv_callback:
  assumes "heap_inv srv" and "intervalCallback h srv = Inr srv'"
  shows "heap_inv srv'"
proof -
  from heap_callback [OF assms(2)] show ?thesis
  proof
    assume "heap srv' = heap srv"
    with assms(1) show ?thesis by (simp add: heap_inv_def)
  next
    assume "\<exists>a st. a < length (heap srv) \<and> updateDronePosition (heap srv ! a) = Inr st
           \<and> heap srv' = (heap srv)[a := st]"
    then obtain a st where a: "a < length (heap srv)"
      and upd: "updateDronePosition (heap srv ! a) = Inr st"
      and h: "heap srv' = (heap srv)[a := st]" by blast
    from assms(1) a have "session_inv (heap srv ! a)" by (rule heap_inv_nth)
    then have "session_inv st" using upd by (rule session_inv_advance)
    with all_set_update [of "heap srv" session_inv a st] assms(1) h show ?thesis
      by (simp add: heap_inv_def)
  qed
qed

lemma reachable_heap_inv: "reachable srv \<Longrightarrow> heap_inv srv"
proof (induction rule: reachable.induct)
  case init
  show ?case by (simp add: heap_inv_def initial_server_def)
next
  case (message srv ws data now)
  then show ?case by (simp add: heap_inv_message)
next
  case (close srv ws)
  then show ?case by (simp add: heap_inv_close)
next
  case (tick srv h srv')
  then show ?case by (simp add: heap_inv_callback)
qed

lemma running01_eq:
  "running01 = \<lparr>heap = [initialState route01 (Some (Fin 1)) 0],
       timers = [Some (''c'', 0)],
       activeSimulations = [''c'' \<mapsto> \<lparr>state = 0, interval = 0\<rparr>],
       sent = [(''c'', SIMULATION_STARTED \<lparr>lat = Fin 0, lng = Fin 0\<rparr>)]\<rparr>"
  by (simp add: running01_def handleStartSimulation_def socket_def start_msg_def
      initial_server_def route01_def)

lemma reachable_running01: "reachable running01"
  using reachable.message [OF reachable.init, of "socket ''c''"
      "start_msg (Some route01) (Some (Fin 1))" 0]
  by (simp add: onMessage_def start_msg_def running01_def)

section \<open>The registry and the armed intervals\<close>

lemma consistent_heap_only:
  assumes "consistent srv" and "length hp = length (heap srv)"
  shows "consistent (srv\<lparr>heap := hp\<rparr>)"
  using assms by (simp add: consistent_def)

lemma consistent_sent_only: "consistent (srv\<lparr>sent := ms\<rparr>) = consistent srv"
  by (simp add: consistent_def)

lemma consistent_entry:
  assumes "consistent srv" and "activeSimulations srv i = Some sim"
  shows "state sim < length (heap srv)" and "interval sim < length (timers srv)"
    and "timers srv ! interval sim = Some (i, state sim)"
  using assms by (simp_all add: consistent_def)

lemma consistent_timer:
  assumes "consistent srv" and "h < length (timers srv)" and "timers srv ! h = Some (i, a)"
  shows "activeSimulations srv i = Some \<lparr>state = a, interval = h\<rparr>"
  using assms by (simp add: consistent_def)

text \<open>Clearing the interval of an entry and deleting the entry.\<close>

lemma consistent_remove:
  assumes c: "consistent srv" and e: "activeSimulations srv c = Some sim"
  shows "consistent (srv\<lparr>timers := (timers srv)[interval sim := None],
                         activeSimulations := (activeSimulations srv)(c := None)\<rparr>)"
    (is "consistent ?srv'")
  unfolding consistent_def
proof (intro conjI allI impI)
  fix i s assume a: "activeSimulations ?srv' i = Some s"
  then have ic: "i \<noteq> c" and s: "activeSimulations srv i = Some s"
    by (auto split: if_splits)
  from consistent_entry [OF c s] consistent_entry [OF c e] ic
  have ne: "interval s \<noteq> interval sim" by auto
  from consistent_entry [OF c s]
  show "state s < length (heap ?srv')" "interval s < length (timers ?srv')" by simp_all
  from consistent_entry [OF c s] ne
  show "timers ?srv' ! interval s = Some (i, state s)" by simp
next
  fix h i a assume h: "h < length (timers ?srv')" and t: "timers ?srv' ! h = Some (i, a)"
  from h have h': "h < length (timers srv)" by simp
  from t h' have ne: "h \<noteq> interval sim" by (auto simp: nth_list_update split: if_splits)
  with t have t': "timers srv ! h = Some (i, a)" by simp
  from consistent_timer [OF c h' t'] have s: "activeSimulations srv i = Some \<lparr>state = a, interval = h\<rparr>" .
  with e ne have "i \<noteq> c" by auto
  with s show "activeSimulations ?srv' i = Some \<lparr>state = a, interval = h\<rparr>" by simp
qed

text \<open>Clearing the interval of an entry that is about to be replaced, and replacing it.\<close>

lemma consistent_clear_old:
  assumes c: "consistent srv"
  shows "(\<forall>j sim. j \<noteq> i \<longrightarrow> activeSimulations srv j = Some sim \<longrightarrow>
            timers (case activeSimulations srv i of None \<Rightarrow> srv
                    | Some old \<Rightarrow> clearInterval (interval old) srv) ! interval sim
              = Some (j, state sim))
       \<and> (\<forall>h j a. h < length (timers srv) \<longrightarrow>
            timers (case activeSimulations srv i of None \<Rightarrow> srv
                    | Some old \<Rightarrow> clearInterval (interval old) srv) ! h = Some (j, a) \<longrightarrow>
            j \<noteq> i \<and> activeSimulations srv j = Some \<lparr>state = a, interval = h\<rparr>)"
proof (cases "activeSimulations srv i")
  case None
  show ?thesis
  proof (rule conjI; intro allI impI)
    fix j sim assume "j \<noteq> i" "activeSimulations srv j = Some sim"
    with None consistent_entry [OF c, of j sim]
    show "timers (case activeSimulations srv i of None \<Rightarrow> srv
                    | Some old \<Rightarrow> clearInterval (interval old) srv) ! interval sim
              = Some (j, state sim)" by simp
  next
    fix h j a assume "h < length (timers srv)"
      and "timers (case activeSimulations srv i of None \<Rightarrow> srv
                    | Some old \<Rightarrow> clearInterval (interval old) srv) ! h = Some (j, a)"
    with None consistent_timer [OF c, of h j a]
    show "j \<noteq> i \<and> activeSimulations srv j = Some \<lparr>state = a, interval = h\<rparr>" by auto
  qed
next
  case (Some old)
  show ?thesis
  proof (rule conjI; intro allI impI)
    fix j sim assume ji: "j \<noteq> i" and s: "activeSimulations srv j = Some sim"
    from consistent_entry [OF c s] consistent_entry [OF c Some] ji
    have "interval sim \<noteq> interval old" by auto
    with Some consistent_entry [OF c s]
    show "timers (case activeSimulations srv i of None \<Rightarrow> srv
                    | Some old \<Rightarrow> clearInterval (interval old) srv) ! interval sim
              = Some (j, state sim)" by (simp add: clearInterval_def)
  next
    fix h j a assume h: "h < length (timers srv)"
      and t: "timers (case activeSimulations srv i of None \<Rightarrow> srv
                    | Some old \<Rightarrow> clearInterval (interval old) srv) ! h = Some (j, a)"
    from t Some h have ne: "h \<noteq> interval old"
      by (auto simp: clearInterval_def nth_list_update split: if_splits)
    with t Some have "timers srv ! h = Some (j, a)" by (simp add: clearInterval_def)
    from consistent_timer [OF c h this]
    have s: "activeSimulations srv j = Some \<lparr>state = a, interval = h\<rparr>" .
    with Some ne have "j \<noteq> i" by auto
    with s show "j \<noteq> i \<and> activeSimulations srv j = Some \<lparr>state = a, interval = h\<rparr>" by simp
  qed
qed


lemma start_ok:
  assumes "ws_id ws = Some i" and "i \<noteq> []"
    and "msg_waypoints data = Some wps" and "2 \<le> length wps"
  shows "handleStartSimulation ws data now srv =
     (case activeSimulations srv i of None \<Rightarrow> srv
      | Some old \<Rightarrow> clearInterval (interval old) srv)
       \<lparr>heap := heap srv @ [initialState wps (msg_speed data) now],
        timers := timers (case activeSimulations srv i of None \<Rightarrow> srv
                          | Some old \<Rightarrow> clearInterval (interval old) srv)
                   @ [Some (i, length (heap srv))],
        activeSimulations := (activeSimulations srv)
           (i \<mapsto> \<lparr>state = length (heap srv), interval = length (timers srv)\<rparr>),
        sent := sent srv @ [(i, SIMULATION_STARTED (wps ! 0))]\<rparr>"
  using assms
  by (cases "activeSimulations srv i")
    (simp_all add: handleStartSimulation_def Let_def clearInterval_def)

lemma consistent_start_ok:
  assumes c: "consistent srv"
    and t1: "length t1 = length (timers srv)"
    and old1: "\<forall>j sim. j \<noteq> i \<longrightarrow> activeSimulations srv j = Some sim \<longrightarrow>
                 t1 ! interval sim = Some (j, state sim)"
    and old2: "\<forall>h j a. h < length (timers srv) \<longrightarrow> t1 ! h = Some (j, a) \<longrightarrow>
                 j \<noteq> i \<and> activeSimulations srv j = Some \<lparr>state = a, interval = h\<rparr>"
  shows "consistent \<lparr>heap = heap srv @ [st0],
            timers = t1 @ [Some (i, length (heap srv))],
            activeSimulations = (activeSimulations srv)
               (i \<mapsto> \<lparr>state = length (heap srv), interval = length (timers srv)\<rparr>),
            sent = ms\<rparr>"
  unfolding consistent_def
proof (rule conjI; intro allI impI)
  fix j s
  assume a: "activeSimulations \<lparr>heap = heap srv @ [st0],
            timers = t1 @ [Some (i, length (heap srv))],
            activeSimulations = (activeSimulations srv)
               (i \<mapsto> \<lparr>state = length (heap srv), interval = length (timers srv)\<rparr>),
            sent = ms\<rparr> j = Some s"
  show "state s < length (heap \<lparr>heap = heap srv @ [st0],
            timers = t1 @ [Some (i, length (heap srv))],
            activeSimulations = (activeSimulations srv)
               (i \<mapsto> \<lparr>state = length (heap srv), interval = length (timers srv)\<rparr>),
            sent = ms\<rparr>)
      \<and> interval s < length (timers \<lparr>heap = heap srv @ [st0],
            timers = t1 @ [Some (i, length (heap srv))],
            activeSimulations = (activeSimulations srv)
               (i \<mapsto> \<lparr>state = length (heap srv), interval = length (timers srv)\<rparr>),
            sent = ms\<rparr>)
      \<and> timers \<lparr>heap = heap srv @ [st0],
            timers = t1 @ [Some (i, length (heap srv))],
            activeSimulations = (activeSimulations srv)
               (i \<mapsto> \<lparr>state = length (heap srv), interval = length (timers srv)\<rparr>),
            sent = ms\<rparr> ! interval s = Some (j, state s)"
  proof (cases "j = i")
    case True
    with a have "s = \<lparr>state = length (heap srv), interval = length (timers srv)\<rparr>" by simp
    with True t1 show ?thesis by (simp add: nth_append)
  next
    case False
    with a have s: "activeSimulations srv j = Some s" by simp
    from old1 False s have "t1 ! interval s = Some (j, state s)" by blast
    with consistent_entry [OF c s] t1 show ?thesis by (simp add: nth_append)
  qed
next
  fix h j a
  assume h: "h < length (timers \<lparr>heap = heap srv @ [st0],
            timers = t1 @ [Some (i, length (heap srv))],
            activeSimulations = (activeSimulations srv)
               (i \<mapsto> \<lparr>state = length (heap srv), interval = length (timers srv)\<rparr>),
            sent = ms\<rparr>)"
    and t: "timers \<lparr>heap = heap srv @ [st0],
            timers = t1 @ [Some (i, length (heap srv))],
            activeSimulations = (activeSimulations srv)
               (i \<mapsto> \<lparr>state = length (heap srv), interval = length (timers srv)\<rparr>),
            sent = ms\<rparr> ! h = Some (j, a)"
  show "activeSimulations \<lparr>heap = heap srv @ [st0],
            timers = t1 @ [Some (i, length (heap srv))],
            activeSimulations = (activeSimulations srv)
               (i \<mapsto> \<lparr>state = length (heap srv), interval = length (timers srv)\<rparr>),
            sent = ms\<rparr> j = Some \<lparr>state = a, interval = h\<rparr>"
  proof (cases "h = length (timers srv)")
    case True
    with t t1 show ?thesis by (simp add: nth_append)
  next
    case False
    with h t1 have h': "h < length (timers srv)" by simp
    with t t1 have "t1 ! h = Some (j, a)" by (simp add: nth_append)
    with old2 h' have "j \<noteq> i \<and> activeSimulations srv j = Some \<lparr>state = a, interval = h\<rparr>"
      by blast
    then show ?thesis by simp
  qed
qed

lemma consistent_start:
  assumes c: "consistent srv"
  shows "consistent (handleStartSimulation ws data now srv)"
proof (cases "\<exists>i wps. ws_id ws = Some i \<and> i \<noteq> [] \<and> msg_waypoints data = Some wps
                \<and> 2 \<le> length wps")
  case False
  then have "handleStartSimulation ws data now srv = srv
      \<or> (\<exists>i txt. handleStartSimulation ws data now srv = sendError i txt srv)"
    by (auto simp: handleStartSimulation_def split: option.splits)
  with c show ?thesis by (auto simp: sendError_def consistent_sent_only)
next
  case True
  then obtain i wps where ok: "ws_id ws = Some i" "i \<noteq> []" "msg_waypoints data = Some wps"
    "2 \<le> length wps" by blast
  let ?srv1 = "case activeSimulations srv i of None \<Rightarrow> srv
               | Some old \<Rightarrow> clearInterval (interval old) srv"
  have len: "length (timers ?srv1) = length (timers srv)"
    by (simp add: clearInterval_def split: option.splits)
  from consistent_clear_old [OF c, of i]
  have old1: "\<forall>j sim. j \<noteq> i \<longrightarrow> activeSimulations srv j = Some sim \<longrightarrow>
                 timers ?srv1 ! interval sim = Some (j, state sim)"
    and old2: "\<forall>h j a. h < length (timers srv) \<longrightarrow> timers ?srv1 ! h = Some (j, a) \<longrightarrow>
                 j \<noteq> i \<and> activeSimulations srv j = Some \<lparr>state = a, interval = h\<rparr>"
    by blast+
  have eq: "handleStartSimulation ws data now srv =
      \<lparr>heap = heap srv @ [initialState wps (msg_speed data) now],
       timers = timers ?srv1 @ [Some (i, length (heap srv))],
       activeSimulations = (activeSimulations srv)
          (i \<mapsto> \<lparr>state = length (heap srv), interval = length (timers srv)\<rparr>),
       sent = sent srv @ [(i, SIMULATION_STARTED (wps ! 0))]\<rparr>"
    unfolding start_ok [OF ok] by simp
  show ?thesis
    unfolding eq by (rule consistent_start_ok [OF c len old1 old2])
qed

lemma consistent_pause: "consistent srv \<Longrightarrow> consistent (handlePauseSimulation c srv)"
  by (simp add: handlePauseSimulation_def consistent_heap_only split: option.splits)

lemma consistent_resume: "consistent srv \<Longrightarrow> consistent (handleResumeSimulation c srv)"
  by (simp add: handleResumeSimulation_def consistent_heap_only split: option.splits)

lemma consistent_speed: "consistent srv \<Longrightarrow> consistent (handleUpdateSpeed c v srv)"
  by (simp add: handleUpdateSpeed_def consistent_heap_only split: option.splits)

lemma consistent_stop: "consistent srv \<Longrightarrow> consistent (handleStopSimulation c srv)"
  using consistent_remove [of srv c]
  by (simp add: handleStopSimulation_def clearInterval_def split: option.splits)

lemma consistent_close: "consistent srv \<Longrightarrow> consistent (onClose ws srv)"
  using consistent_remove [of srv]
  by (simp add: onClose_def clearInterval_def split: option.splits)

lemma consistent_with_id:
  "(\<And>i. consistent srv \<Longrightarrow> consistent (handler i srv)) \<Longrightarrow> consistent srv \<Longrightarrow>
     consistent (with_id ws handler srv)"
  by (simp add: with_id_def split: option.splits)

lemma consistent_message: "consistent srv \<Longrightarrow> consistent (onMessage ws data now srv)"
  unfolding onMessage_def
  by (simp add: consistent_start consistent_with_id consistent_pause consistent_resume
      consistent_stop consistent_speed split: option.splits)


lemma callback_fires:
  assumes "h < length (timers srv)" and "timers srv ! h = Some (i, a)"
    and "a < length (heap srv)" and "\<not> isPaused (heap srv ! a)"
    and "updateDronePosition (heap srv ! a) = Inr st"
  shows "intervalCallback h srv =
     Inr (if isComplete st = Some True
          then srv\<lparr>heap := (heap srv)[a := st],
                   sent := sent srv @ [(i, positionUpdate st)],
                   timers := (timers srv)[h := None],
                   activeSimulations := (activeSimulations srv)(i := None)\<rparr>
          else srv\<lparr>heap := (heap srv)[a := st],
                   sent := sent srv @ [(i, positionUpdate st)]\<rparr>)"
  using assms by (simp add: intervalCallback_def Let_def)

lemma callback_paused:
  assumes "h < length (timers srv)" and "timers srv ! h = Some (i, a)"
    and "a < length (heap srv)" and "isPaused (heap srv ! a)"
  shows "intervalCallback h srv = Inr srv"
  using assms by (simp add: intervalCallback_def)

lemma callback_cases:
  assumes "intervalCallback h srv = Inr srv'"
  shows "srv' = srv
     \<or> (\<exists>i a st. h < length (timers srv) \<and> timers srv ! h = Some (i, a)
           \<and> a < length (heap srv) \<and> \<not> isPaused (heap srv ! a)
           \<and> updateDronePosition (heap srv ! a) = Inr st
           \<and> srv' = (if isComplete st = Some True
                then srv\<lparr>heap := (heap srv)[a := st],
                         sent := sent srv @ [(i, positionUpdate st)],
                         timers := (timers srv)[h := None],
                         activeSimulations := (activeSimulations srv)(i := None)\<rparr>
                else srv\<lparr>heap := (heap srv)[a := st],
                         sent := sent srv @ [(i, positionUpdate st)]\<rparr>))"
proof (cases "h < length (timers srv)")
  case False
  with assms show ?thesis by (simp add: intervalCallback_def)
next
  case h: True
  show ?thesis
  proof (cases "timers srv ! h")
    case None
    with h assms show ?thesis by (simp add: intervalCallback_def)
  next
    case (Some p)
    obtain i a where p: "p = (i, a)" by (cases p)
    show ?thesis
    proof (cases "a < length (heap srv) \<and> \<not> isPaused (heap srv ! a)")
      case False
      with h Some p assms show ?thesis
        by (auto simp: intervalCallback_def split: if_splits)
    next
      case True
      show ?thesis
      proof (cases "updateDronePosition (heap srv ! a)")
        case (Inl e)
        with h Some p True assms show ?thesis by (simp add: intervalCallback_def)
      next
        case (Inr st)
        from h Some p True Inr have "intervalCallback h srv =
           Inr (if isComplete st = Some True
                then srv\<lparr>heap := (heap srv)[a := st],
                         sent := sent srv @ [(i, positionUpdate st)],
                         timers := (timers srv)[h := None],
                         activeSimulations := (activeSimulations srv)(i := None)\<rparr>
                else srv\<lparr>heap := (heap srv)[a := st],
                         sent := sent srv @ [(i, positionUpdate st)]\<rparr>)"
          by (simp add: callback_fires)
        with assms have "srv' = (if isComplete st = Some True
                then srv\<lparr>heap := (heap srv)[a := st],
                         sent := sent srv @ [(i, positionUpdate st)],
                         timers := (timers srv)[h := None],
                         activeSimulations := (activeSimulations srv)(i := None)\<rparr>
                else srv\<lparr>heap := (heap srv)[a := st],
                         sent := sent srv @ [(i, positionUpdate st)]\<rparr>)" by simp
        with h Some p True Inr show ?thesis by blast
      qed
    qed
  qed
qed

lemma consistent_callback:
  assumes c: "consistent srv" and cb: "intervalCallback h srv = Inr srv'"
  shows "consistent srv'"
proof -
  from callback_cases [OF cb] show ?thesis
  proof
    assume "srv' = srv"
    with c show ?thesis by simp
  next
    assume "\<exists>i a st. h < length (timers srv) \<and> timers srv ! h = Some (i, a)
           \<and> a < length (heap srv) \<and> \<not> isPaused (heap srv ! a)
           \<and> updateDronePosition (heap srv ! a) = Inr st
           \<and> srv' = (if isComplete st = Some True
                then srv\<lparr>heap := (heap srv)[a := st],
                         sent := sent srv @ [(i, positionUpdate st)],
                         timers := (timers srv)[h := None],
                         activeSimulations := (activeSimulations srv)(i := None)\<rparr>
                else srv\<lparr>heap := (heap srv)[a := st],
                         sent := sent srv @ [(i, positionUpdate st)]\<rparr>)"
    then obtain i a st where h: "h < length (timers srv)" and t: "timers srv ! h = Some (i, a)"
      and srv': "srv' = (if isComplete st = Some True
                then srv\<lparr>heap := (heap srv)[a := st],
                         sent := sent srv @ [(i, positionUpdate st)],
                         timers := (timers srv)[h := None],
                         activeSimulations := (activeSimulations srv)(i := None)\<rparr>
                else srv\<lparr>heap := (heap srv)[a := st],
                         sent := sent srv @ [(i, positionUpdate st)]\<rparr>)" by blast
    from consistent_timer [OF c h t]
    have e: "activeSimulations srv i = Some \<lparr>state = a, interval = h\<rparr>" .
    from consistent_remove [OF c e]
    have r: "consistent (srv\<lparr>timers := (timers srv)[h := None],
                         activeSimulations := (activeSimulations srv)(i := None)\<rparr>)" by simp
    show ?thesis
    proof (cases "isComplete st = Some True")
      case True
      with srv' r show ?thesis by (simp add: consistent_def)
    next
      case False
      with srv' c show ?thesis by (simp add: consistent_def)
    qed
  qed
qed

lemma reachable_consistent: "reachable srv \<Longrightarrow> consistent srv"
proof (induction rule: reachable.induct)
  case init
  show ?case by (simp add: consistent_def initial_server_def)
next
  case (message srv ws data now)
  then show ?case by (simp add: consistent_message)
next
  case (close srv ws)
  then show ?case by (simp add: consistent_close)
next
  case (tick srv h srv')
  then show ?case by (simp add: consistent_callback)
qed

lemma pause_entry:
  assumes "activeSimulations srv c = Some sim"
  shows "handlePauseSimulation c srv =
           srv\<lparr>heap := (heap srv)[state sim := (heap srv ! state sim)\<lparr>isPaused := True\<rparr>]\<rparr>"
  using assms by (simp add: handlePauseSimulation_def)

lemma resume_entry:
  assumes "activeSimulations srv c = Some sim"
  shows "handleResumeSimulation c srv =
           srv\<lparr>heap := (heap srv)[state sim := (heap srv ! state sim)\<lparr>isPaused := False\<rparr>]\<rparr>"
  using assms by (simp add: handleResumeSimulation_def)

lemma ticks_fixed:
  assumes "intervalCallback h srv = Inr srv"
  shows "ticks n h srv = Inr srv"
  using assms by (induction n) simp_all

lemma tick_step_zero: "tick_step (Fin 0) = Fin 0"
  by (simp add: tick_step_def fl_1_10000)

lemma session_inv_mid:
  assumes "session_inv st" and "nextWaypointIndex st < length (waypoints st)"
  shows "currentWaypointIndex st < length (waypoints st)" and "isComplete st = None"
    and "\<not> jge (tick_ratio (progress st)
                    (calculateDistance (waypoints st ! currentWaypointIndex st)
                       (waypoints st ! nextWaypointIndex st))) (Fin 1)"
    and "dbl (progress st)"
  using assms by (auto simp: session_inv_def)

lemma zero_speed_step:
  assumes inv: "session_inv st" and mid: "nextWaypointIndex st < length (waypoints st)"
    and sp: "speed st = Fin 0"
  shows "updateDronePosition st =
     Inr (st\<lparr>currentPosition :=
              interpolate (waypoints st ! currentWaypointIndex st)
                (waypoints st ! nextWaypointIndex st)
                (tick_ratio (progress st)
                   (calculateDistance (waypoints st ! currentWaypointIndex st)
                      (waypoints st ! nextWaypointIndex st)))\<rparr>)"
  using session_inv_mid [OF inv mid] mid sp
  by (simp add: updateDronePosition_def Let_def tick_step_zero jadd_zero)

lemma stalled_callback:
  assumes s: "stalled c sim st0 srv" and mid: "nextWaypointIndex st0 < length (waypoints st0)"
  shows "\<exists>srv'. intervalCallback (interval sim) srv = Inr srv' \<and> stalled c sim st0 srv'"
proof -
  let ?a = "state sim" and ?h = "interval sim"
  let ?st = "heap srv ! ?a"
  from s have c: "consistent srv" and hi: "heap_inv srv"
    and e: "activeSimulations srv c = Some sim" and sp: "speed ?st = Fin 0"
    and same: "waypoints ?st = waypoints st0" "nextWaypointIndex ?st = nextWaypointIndex st0"
      "currentWaypointIndex ?st = currentWaypointIndex st0" "progress ?st = progress st0"
      "isComplete ?st = None"
    by (simp_all add: stalled_def)
  note ent = consistent_entry [OF c e]
  from hi ent(1) have inv: "session_inv ?st" by (rule heap_inv_nth)
  from mid same have mid': "nextWaypointIndex ?st < length (waypoints ?st)" by simp
  show ?thesis
  proof (cases "isPaused ?st")
    case True
    from callback_paused [OF ent(2) ent(3) ent(1) True] s show ?thesis by simp
  next
    case False
    let ?st' = "?st\<lparr>currentPosition :=
              interpolate (waypoints ?st ! currentWaypointIndex ?st)
                (waypoints ?st ! nextWaypointIndex ?st)
                (tick_ratio (progress ?st)
                   (calculateDistance (waypoints ?st ! currentWaypointIndex ?st)
                      (waypoints ?st ! nextWaypointIndex ?st)))\<rparr>"
    let ?srv' = "srv\<lparr>heap := (heap srv)[?a := ?st'], sent := sent srv @ [(c, positionUpdate ?st')]\<rparr>"
    have upd: "updateDronePosition ?st = Inr ?st'"
      using inv mid' sp by (rule zero_speed_step)
    have nc: "isComplete ?st' \<noteq> Some True" using same by simp
    from callback_fires [OF ent(2) ent(3) ent(1) False upd] nc
    have cb: "intervalCallback ?h srv = Inr ?srv'" by simp
    from c cb have c': "consistent ?srv'" by (rule consistent_callback)
    from hi cb have hi': "heap_inv ?srv'" by (rule heap_inv_callback)
    from ent(1) have nth: "heap ?srv' ! ?a = ?st'" by simp
    have "stalled c sim st0 ?srv'"
      unfolding stalled_def nth using c' hi' e sp same by simp
    with cb show ?thesis by blast
  qed
qed

lemma stalled_ticks:
  assumes "stalled c sim st0 srv" and "nextWaypointIndex st0 < length (waypoints st0)"
  shows "\<exists>srv'. ticks n (interval sim) srv = Inr srv' \<and> stalled c sim st0 srv'"
  using assms
proof (induction n arbitrary: srv)
  case 0
  then show ?case by simp
next
  case (Suc n)
  from stalled_callback [OF Suc.prems] obtain srv1
    where cb: "intervalCallback (interval sim) srv = Inr srv1" and s1: "stalled c sim st0 srv1"
    by blast
  from Suc.IH [OF s1 Suc.prems(2)] cb show ?case by simp
qed

text \<open>The arithmetic of the scenarios.\<close>

lemma route01_distance: "calculateDistance (route01 ! 0) (route01 ! 1) = Fin 1"
  by (simp add: calculateDistance_def route01_def jsub_def fl_one)

lemma tick_step_one: "tick_step (Fin 1) = Fin double_00001"
  by (simp add: tick_step_def fl_1_10000 fl_double_0001 fl_tenth_0001)

lemma tick_step_minus_one: "tick_step (Fin (- 1)) = Fin (- double_00001)"
proof -
  have "fl (- double_0001) = Fin (- double_0001)"
    by (simp add: fl_minus fl_double_0001)
  moreover have "fl (- (double_0001 / 10)) = Fin (- double_00001)"
    by (simp add: fl_minus fl_tenth_0001)
  ultimately show ?thesis
    by (simp add: tick_step_def fl_1_10000)
qed

text \<open>The smallest positive double times \<open>0.0001\<close> rounds to \<open>0\<close>.\<close>

lemma tick_step_tiny: "tick_step (Fin (1 / 2 ^ 1074)) = Fin 0"
  using fl_tiny_0001 by (simp add: tick_step_def fl_1_10000)

lemma tick_step_200000: "tick_step (Fin 200000) = Fin 2"
  by (simp add: tick_step_def fl_1_10000 fl_200000_0001 fl_two)

lemma first_step01:
  "updateDronePosition (initialState route01 (Some (Fin 1)) now) =
     Inr ((initialState route01 (Some (Fin 1)) now)
           \<lparr>progress := Fin double_00001,
            currentPosition := \<lparr>lat = Fin 0, lng = Fin double_00001\<rparr>\<rparr>)"
proof -
  have st: "waypoints (initialState route01 (Some (Fin 1)) now) = route01"
    "currentWaypointIndex (initialState route01 (Some (Fin 1)) now) = 0"
    "nextWaypointIndex (initialState route01 (Some (Fin 1)) now) = 1"
    "progress (initialState route01 (Some (Fin 1)) now) = Fin 0"
    "speed (initialState route01 (Some (Fin 1)) now) = Fin 1"
    by (simp_all add: initialState_def)
  have len: "length route01 = 2" by (simp add: route01_def)
  have r: "tick_ratio (Fin double_00001) (Fin 1) = Fin double_00001"
    using double_bounds by (simp add: tick_ratio_def fl_double_00001)
  have pos: "interpolate (route01 ! 0) (route01 ! Suc 0) (Fin double_00001) =
      \<lparr>lat = Fin 0, lng = Fin double_00001\<rparr>"
    by (simp add: interpolate_def route01_def jsub_def fl_one fl_double_00001)
  have nge: "\<not> 1 \<le> double_00001" using double_bounds by simp
  show ?thesis
    using route01_distance
    by (simp add: updateDronePosition_def Let_def st len tick_step_one r pos nge fl_double_00001)
qed

lemma first_tick01: "intervalCallback 0 running01 = Inr ticked01"
  unfolding running01_eq ticked01_def
  by (simp add: intervalCallback_def first_step01 positionUpdate_def)
    (simp add: initialState_def)

lemma reachable_ticked01: "reachable ticked01"
  using reachable.tick [OF reachable_running01 first_tick01] .

lemma fast01_eq:
  "fast01 = \<lparr>heap = [initialState route01 (Some (Fin 200000)) 0],
       timers = [Some (''c'', 0)],
       activeSimulations = [''c'' \<mapsto> \<lparr>state = 0, interval = 0\<rparr>],
       sent = [(''c'', SIMULATION_STARTED \<lparr>lat = Fin 0, lng = Fin 0\<rparr>)]\<rparr>"
  by (simp add: fast01_def handleStartSimulation_def socket_def start_msg_def
      initial_server_def route01_def)

lemma reachable_fast01: "reachable fast01"
  using reachable.message [OF reachable.init, of "socket ''c''"
      "start_msg (Some route01) (Some (Fin 200000))" 0]
  by (simp add: onMessage_def start_msg_def fast01_def)

lemma overshoot_step01:
  "updateDronePosition (initialState route01 (Some (Fin 200000)) now) =
     Inr ((initialState route01 (Some (Fin 200000)) now)
           \<lparr>currentPosition := \<lparr>lat = Fin 0, lng = Fin 1\<rparr>,
            currentWaypointIndex := 1,
            nextWaypointIndex := 2\<rparr>)"
proof -
  have st: "waypoints (initialState route01 (Some (Fin 200000)) now) = route01"
    "currentWaypointIndex (initialState route01 (Some (Fin 200000)) now) = 0"
    "nextWaypointIndex (initialState route01 (Some (Fin 200000)) now) = 1"
    "progress (initialState route01 (Some (Fin 200000)) now) = Fin 0"
    "speed (initialState route01 (Some (Fin 200000)) now) = Fin 200000"
    by (simp_all add: initialState_def)
  have len: "length route01 = 2" by (simp add: route01_def)
  have r: "tick_ratio (Fin 2) (Fin 1) = Fin 1"
    by (simp add: tick_ratio_def fl_two)
  have pos: "interpolate (route01 ! 0) (route01 ! Suc 0) (Fin 1) = \<lparr>lat = Fin 0, lng = Fin 1\<rparr>"
    by (simp add: interpolate_def route01_def jsub_def fl_one)
  show ?thesis
    using route01_distance
    by (simp add: updateDronePosition_def Let_def st len tick_step_200000 fl_two r pos)
qed

lemma first_tick_fast01: "intervalCallback 0 fast01 = Inr arrived01"
  unfolding fast01_eq arrived01_def
  by (simp add: intervalCallback_def overshoot_step01 positionUpdate_def)
    (simp add: initialState_def)

lemma reachable_arrived01: "reachable arrived01"
  using reachable.tick [OF reachable_fast01 first_tick_fast01] .



lemma update_total:
  assumes "session_inv st"
  shows "\<exists>st'. updateDronePosition st = Inr st'"
proof (cases "length (waypoints st) \<le> nextWaypointIndex st")
  case True
  then show ?thesis by (simp add: updateDronePosition_def)
next
  case False
  with assms have "\<not> length (waypoints st) \<le> currentWaypointIndex st"
    by (simp add: session_inv_def)
  with False show ?thesis by (simp add: updateDronePosition_def Let_def)
qed

text \<open>In a reachable server no firing of an interval raises.\<close>

lemma callback_total:
  assumes "heap_inv srv"
  shows "\<exists>srv'. intervalCallback h srv = Inr srv'"
proof (cases "h < length (timers srv)")
  case False
  then show ?thesis by (simp add: intervalCallback_def)
next
  case h: True
  show ?thesis
  proof (cases "timers srv ! h")
    case None
    with h show ?thesis by (simp add: intervalCallback_def)
  next
    case (Some p)
    obtain i a where p: "p = (i, a)" by (cases p)
    show ?thesis
    proof (cases "a < length (heap srv) \<and> \<not> isPaused (heap srv ! a)")
      case False
      with h Some p show ?thesis by (auto simp: intervalCallback_def)
    next
      case True
      with assms have "session_inv (heap srv ! a)" by (simp add: heap_inv_nth)
      from update_total [OF this] obtain st where "updateDronePosition (heap srv ! a) = Inr st"
        by blast
      with h Some p True callback_fires [of h srv i a st] show ?thesis by simp
    qed
  qed
qed

text \<open>A firing of any interval leaves a paused session and its registry entry alone.\<close>

lemma paused_untouched:
  assumes c: "consistent srv" and e: "activeSimulations srv c = Some sim"
    and p: "isPaused (heap srv ! state sim)" and cb: "intervalCallback h srv = Inr srv'"
  shows "activeSimulations srv' c = Some sim \<and> heap srv' ! state sim = heap srv ! state sim"
proof -
  from callback_cases [OF cb] show ?thesis
  proof
    assume "srv' = srv"
    with e show ?thesis by simp
  next
    assume "\<exists>i a st. h < length (timers srv) \<and> timers srv ! h = Some (i, a)
           \<and> a < length (heap srv) \<and> \<not> isPaused (heap srv ! a)
           \<and> updateDronePosition (heap srv ! a) = Inr st
           \<and> srv' = (if isComplete st = Some True
                then srv\<lparr>heap := (heap srv)[a := st],
                         sent := sent srv @ [(i, positionUpdate st)],
                         timers := (timers srv)[h := None],
                         activeSimulations := (activeSimulations srv)(i := None)\<rparr>
                else srv\<lparr>heap := (heap srv)[a := st],
                         sent := sent srv @ [(i, positionUpdate st)]\<rparr>)"
    then obtain i a st where h: "h < length (timers srv)" and t: "timers srv ! h = Some (i, a)"
      and np: "\<not> isPaused (heap srv ! a)"
      and srv': "srv' = (if isComplete st = Some True
                then srv\<lparr>heap := (heap srv)[a := st],
                         sent := sent srv @ [(i, positionUpdate st)],
                         timers := (timers srv)[h := None],
                         activeSimulations := (activeSimulations srv)(i := None)\<rparr>
                else srv\<lparr>heap := (heap srv)[a := st],
                         sent := sent srv @ [(i, positionUpdate st)]\<rparr>)" by blast
    from np p have ne: "a \<noteq> state sim" by auto
    from consistent_timer [OF c h t]
    have "activeSimulations srv i = Some \<lparr>state = a, interval = h\<rparr>" .
    with e ne have "i \<noteq> c" by auto
    with srv' e ne show ?thesis by simp
  qed
qed

lemma fires_paused:
  "consistent srv \<Longrightarrow> heap_inv srv \<Longrightarrow> activeSimulations srv c = Some sim \<Longrightarrow>
   isPaused (heap srv ! state sim) \<Longrightarrow>
   \<exists>srv'. fires hs srv = Inr srv' \<and> activeSimulations srv' c = Some sim
      \<and> heap srv' ! state sim = heap srv ! state sim"
proof (induction hs arbitrary: srv)
  case Nil
  then show ?case by simp
next
  case (Cons h hs)
  from callback_total [OF Cons.prems(2)] obtain srv1 where cb: "intervalCallback h srv = Inr srv1"
    by blast
  from paused_untouched [OF Cons.prems(1,3,4) cb]
  have e1: "activeSimulations srv1 c = Some sim"
    and h1: "heap srv1 ! state sim = heap srv ! state sim" by simp_all
  from Cons.prems(1) cb have c1: "consistent srv1" by (rule consistent_callback)
  from Cons.prems(2) cb have i1: "heap_inv srv1" by (rule heap_inv_callback)
  from Cons.prems(4) h1 have p1: "isPaused (heap srv1 ! state sim)" by simp
  from Cons.IH [OF c1 i1 e1 p1] cb h1 show ?case by simp
qed

section \<open>The first tick of the scenario with two waypoints\<close>

text \<open>
  Claim C1. For the route \<open>[{0,0},{0,1}]\<close> started with speed \<open>1\<close>, the step of a
  tick is \<open>(1 * 0.0001) / 10 = 0.00001\<close> (the double that the literal \<open>0.00001\<close>
  denotes, \<^term>\<open>double_00001\<close>), the segment has length \<open>1\<close>, and the first
  tick leaves the progress and the ratio at \<open>0.00001\<close>, moves the position to
  \<open>{lat: 0, lng: 0.00001}\<close>, and sends a \<open>POSITION_UPDATE\<close> whose \<open>isComplete\<close>
  is false; the session stays registered and its interval armed.
\<close>

theorem C1_first_tick:
  "tick_step (Fin 1) = Fin double_00001
   \<and> fl (1 / 100000) = Fin double_00001
   \<and> calculateDistance (route01 ! 0) (route01 ! 1) = Fin 1
   \<and> tick_ratio (jadd (Fin 0) (tick_step (Fin 1))) (calculateDistance (route01 ! 0) (route01 ! 1))
       = Fin double_00001
   \<and> updateDronePosition (initialState route01 (Some (Fin 1)) now) =
       Inr ((initialState route01 (Some (Fin 1)) now)
             \<lparr>progress := Fin double_00001,
              currentPosition := \<lparr>lat = Fin 0, lng = Fin double_00001\<rparr>\<rparr>)
   \<and> intervalCallback 0
        (handleStartSimulation (socket ''c'') (start_msg (Some route01) (Some (Fin 1))) now
           initial_server) =
       Inr \<lparr>heap = [(initialState route01 (Some (Fin 1)) now)
                      \<lparr>progress := Fin double_00001,
                       currentPosition := \<lparr>lat = Fin 0, lng = Fin double_00001\<rparr>\<rparr>],
            timers = [Some (''c'', 0)],
            activeSimulations = [''c'' \<mapsto> \<lparr>state = 0, interval = 0\<rparr>],
            sent = [(''c'', SIMULATION_STARTED \<lparr>lat = Fin 0, lng = Fin 0\<rparr>),
                    (''c'', POSITION_UPDATE \<lparr>lat = Fin 0, lng = Fin double_00001\<rparr>
                              (Fin double_00001) 0 False)]\<rparr>"
proof -
  have step: "tick_step (Fin 1) = Fin double_00001"
    by (rule tick_step_one)
  have lit: "fl (1 / 100000) = Fin double_00001"
    by (rule fl_1_100000)
  have dist: "calculateDistance (route01 ! 0) (route01 ! 1) = Fin 1"
    by (rule route01_distance)
  have ratio: "tick_ratio (jadd (Fin 0) (tick_step (Fin 1)))
      (calculateDistance (route01 ! 0) (route01 ! 1)) = Fin double_00001"
    unfolding dist step using double_bounds by (simp add: tick_ratio_def fl_double_00001)
  have upd: "updateDronePosition (initialState route01 (Some (Fin 1)) now) =
       Inr ((initialState route01 (Some (Fin 1)) now)
             \<lparr>progress := Fin double_00001,
              currentPosition := \<lparr>lat = Fin 0, lng = Fin double_00001\<rparr>\<rparr>)"
    by (rule first_step01)
  have start: "handleStartSimulation (socket ''c'') (start_msg (Some route01) (Some (Fin 1))) now
           initial_server =
      \<lparr>heap = [initialState route01 (Some (Fin 1)) now],
       timers = [Some (''c'', 0)],
       activeSimulations = [''c'' \<mapsto> \<lparr>state = 0, interval = 0\<rparr>],
       sent = [(''c'', SIMULATION_STARTED \<lparr>lat = Fin 0, lng = Fin 0\<rparr>)]\<rparr>"
    by (simp add: handleStartSimulation_def socket_def start_msg_def initial_server_def route01_def)
  have cb: "intervalCallback 0
        (handleStartSimulation (socket ''c'') (start_msg (Some route01) (Some (Fin 1))) now
           initial_server) =
       Inr \<lparr>heap = [(initialState route01 (Some (Fin 1)) now)
                      \<lparr>progress := Fin double_00001,
                       currentPosition := \<lparr>lat = Fin 0, lng = Fin double_00001\<rparr>\<rparr>],
            timers = [Some (''c'', 0)],
            activeSimulations = [''c'' \<mapsto> \<lparr>state = 0, interval = 0\<rparr>],
            sent = [(''c'', SIMULATION_STARTED \<lparr>lat = Fin 0, lng = Fin 0\<rparr>),
                    (''c'', POSITION_UPDATE \<lparr>lat = Fin 0, lng = Fin double_00001\<rparr>
                              (Fin double_00001) 0 False)]\<rparr>"
    unfolding start
    by (simp add: intervalCallback_def upd positionUpdate_def) (simp add: initialState_def)
  from step lit dist ratio upd cb show ?thesis by (intro conjI)
qed

section \<open>Starting a simulation\<close>

text \<open>
  Claim C2. A start request from a connected socket whose waypoint list is absent or
  shorter than two is answered with the \<open>ERROR\<close> message and changes nothing else:
  no state object, no interval, no registry entry; a session the socket already has
  stays as it is.
\<close>

theorem C2_short_route_rejected:
  assumes "ws_id ws = Some i" and "i \<noteq> []"
    and "msg_waypoints data = None \<or> (\<exists>wps. msg_waypoints data = Some wps \<and> length wps < 2)"
  shows "handleStartSimulation ws data now srv =
           srv\<lparr>sent := sent srv @ [(i, ERROR ''At least two waypoints are required'')]\<rparr>
         \<and> heap (handleStartSimulation ws data now srv) = heap srv
         \<and> timers (handleStartSimulation ws data now srv) = timers srv
         \<and> activeSimulations (handleStartSimulation ws data now srv) = activeSimulations srv"
  using assms by (auto simp: handleStartSimulation_def sendError_def)

theorem C2_short_route_rejected_witness:
  "handleStartSimulation (socket ''c'') (start_msg (Some one_point) (Some (Fin 1))) 7 running01 =
     running01\<lparr>sent := sent running01 @ [(''c'', ERROR ''At least two waypoints are required'')]\<rparr>
   \<and> activeSimulations
        (handleStartSimulation (socket ''c'') (start_msg (Some one_point) (Some (Fin 1))) 7 running01) ''c''
      = Some \<lparr>state = 0, interval = 0\<rparr>
   \<and> timers (handleStartSimulation (socket ''c'') (start_msg None None) 7 running01)
      = [Some (''c'', 0)]"
  using C2_short_route_rejected [of "socket ''c''" "''c''" "start_msg (Some one_point) (Some (Fin 1))" 7 running01]
    C2_short_route_rejected [of "socket ''c''" "''c''" "start_msg None None" 7 running01]
  by (simp add: socket_def start_msg_def one_point_def running01_eq)



section \<open>The segment indices\<close>

text \<open>
  Claim C3. In every state object of every reachable server the next index is the
  current index plus one. The state built at start has the indices \<open>0\<close> and \<open>1\<close>.
  A step inside the route whose ratio reaches \<open>1\<close> adds one to both indices and sets
  the progress to \<open>0\<close>, whatever the progress had exceeded the segment by; any other
  step leaves both indices as they are.
\<close>

theorem C3_indices_adjacent:
  "(reachable srv \<longrightarrow>
      (\<forall>st \<in> set (heap srv). nextWaypointIndex st = currentWaypointIndex st + 1))
   \<and> currentWaypointIndex (initialState wps spd now) = 0
   \<and> nextWaypointIndex (initialState wps spd now) = 1
   \<and> (nextWaypointIndex st < length (waypoints st)
        \<and> currentWaypointIndex st < length (waypoints st)
        \<and> jge (tick_ratio (jadd (progress st) (tick_step (speed st)))
               (calculateDistance (waypoints st ! currentWaypointIndex st)
                  (waypoints st ! nextWaypointIndex st))) (Fin 1)
      \<longrightarrow> (\<exists>st'. updateDronePosition st = Inr st'
             \<and> currentWaypointIndex st' = currentWaypointIndex st + 1
             \<and> nextWaypointIndex st' = nextWaypointIndex st + 1
             \<and> progress st' = Fin 0))
   \<and> (\<forall>st'. updateDronePosition st = Inr st' \<longrightarrow>
         (currentWaypointIndex st' = currentWaypointIndex st
            \<and> nextWaypointIndex st' = nextWaypointIndex st)
         \<or> (currentWaypointIndex st' = currentWaypointIndex st + 1
            \<and> nextWaypointIndex st' = nextWaypointIndex st + 1
            \<and> progress st' = Fin 0))"
proof (intro conjI)
  show "reachable srv \<longrightarrow>
      (\<forall>st \<in> set (heap srv). nextWaypointIndex st = currentWaypointIndex st + 1)"
    using reachable_heap_inv [of srv] by (simp add: heap_inv_def session_inv_def)
  show "currentWaypointIndex (initialState wps spd now) = 0"
    by (simp add: initialState_def)
  show "nextWaypointIndex (initialState wps spd now) = 1"
    by (simp add: initialState_def)
  show "nextWaypointIndex st < length (waypoints st)
        \<and> currentWaypointIndex st < length (waypoints st)
        \<and> jge (tick_ratio (jadd (progress st) (tick_step (speed st)))
               (calculateDistance (waypoints st ! currentWaypointIndex st)
                  (waypoints st ! nextWaypointIndex st))) (Fin 1)
      \<longrightarrow> (\<exists>st'. updateDronePosition st = Inr st'
             \<and> currentWaypointIndex st' = currentWaypointIndex st + 1
             \<and> nextWaypointIndex st' = nextWaypointIndex st + 1
             \<and> progress st' = Fin 0)"
    by (simp add: updateDronePosition_def Let_def)
  show "\<forall>st'. updateDronePosition st = Inr st' \<longrightarrow>
         (currentWaypointIndex st' = currentWaypointIndex st
            \<and> nextWaypointIndex st' = nextWaypointIndex st)
         \<or> (currentWaypointIndex st' = currentWaypointIndex st + 1
            \<and> nextWaypointIndex st' = nextWaypointIndex st + 1
            \<and> progress st' = Fin 0)"
    by (auto simp: updateDronePosition_def Let_def split: if_splits)
qed

theorem C3_indices_adjacent_witness:
  "reachable running01
   \<and> nextWaypointIndex (heap running01 ! 0) = currentWaypointIndex (heap running01 ! 0) + 1
   \<and> jadd (progress overshoot01) (tick_step (speed overshoot01)) = Fin 2
   \<and> (\<exists>st'. updateDronePosition overshoot01 = Inr st'
          \<and> currentWaypointIndex st' = 1 \<and> nextWaypointIndex st' = 2 \<and> progress st' = Fin 0)"
proof -
  have mem: "heap running01 ! 0 \<in> set (heap running01)"
    by (simp add: running01_eq)
  have p: "jadd (progress overshoot01) (tick_step (speed overshoot01)) = Fin 2"
    by (simp add: overshoot01_def initialState_def tick_step_200000 fl_two)
  have d: "calculateDistance (waypoints overshoot01 ! currentWaypointIndex overshoot01)
                  (waypoints overshoot01 ! nextWaypointIndex overshoot01) = Fin 1"
    by (simp add: overshoot01_def initialState_def route01_def calculateDistance_def jsub_def fl_one)
  have hyp: "nextWaypointIndex overshoot01 < length (waypoints overshoot01)
        \<and> currentWaypointIndex overshoot01 < length (waypoints overshoot01)
        \<and> jge (tick_ratio (jadd (progress overshoot01) (tick_step (speed overshoot01)))
               (calculateDistance (waypoints overshoot01 ! currentWaypointIndex overshoot01)
                  (waypoints overshoot01 ! nextWaypointIndex overshoot01))) (Fin 1)"
    unfolding p d by (simp add: tick_ratio_def fl_two overshoot01_def initialState_def route01_def)
  have idx: "currentWaypointIndex overshoot01 = 0" "nextWaypointIndex overshoot01 = 1"
    by (simp_all add: overshoot01_def initialState_def)
  from C3_indices_adjacent [of running01 route01 None 0 overshoot01] reachable_running01 mem hyp p
  show ?thesis
    by (auto simp: idx numeral_2_eq_2)
qed

section \<open>Segments of length zero\<close>

lemma ratio_zero_distance:
  "jpos p \<Longrightarrow> jdiv p (Fin 0) = PInf \<and> tick_ratio p (Fin 0) = Fin 1"
  "\<not> jpos p \<Longrightarrow> tick_ratio p (Fin 0) = NaN \<or> tick_ratio p (Fin 0) = NInf"
  by (cases p; simp add: tick_ratio_def)+

lemma twice_origin_distance:
  "calculateDistance (twice_origin ! 0) (twice_origin ! 1) = Fin 0"
  by (simp add: twice_origin_def calculateDistance_def jsub_def)

lemma zero_segment_fields:
  assumes "st = initialState twice_origin spd now"
  shows "waypoints st = twice_origin" "currentWaypointIndex st = 0" "nextWaypointIndex st = 1"
    "progress st = Fin 0" "length twice_origin = 2"
  using assms by (simp_all add: initialState_def twice_origin_def)

lemma origin_nan:
  "r = NaN \<or> r = NInf \<Longrightarrow>
   interpolate (twice_origin ! 0) (twice_origin ! Suc 0) r = \<lparr>lat = NaN, lng = NaN\<rparr>"
  by (auto simp: interpolate_def twice_origin_def jsub_def)

text \<open>
  Claim C4, as stated, fails: on the route of two equal waypoints started with speed
  \<open>-1\<close> the segment has length \<open>0\<close>, the first step divides \<open>-0.00001\<close> by
  \<open>0\<close>, the ratio is \<open>-Infinity\<close>, the position becomes \<open>NaN\<close> and the indices
  stay \<open>0\<close> and \<open>1\<close>; with speed \<open>0\<close>, and with the smallest positive double
  \<open>5e-324\<close> as the speed, whose step rounds to \<open>0\<close>, the step divides \<open>0\<close> by
  \<open>0\<close> and the ratio is \<open>NaN\<close>.
\<close>

theorem C4_negative_speed_counterexample:
  "heap (handleStartSimulation (socket ''c'') (start_msg (Some twice_origin) (Some (Fin (- 1)))) 0
           initial_server) = [backward00]
   \<and> nextWaypointIndex backward00 < length (waypoints backward00)
   \<and> calculateDistance (waypoints backward00 ! currentWaypointIndex backward00)
        (waypoints backward00 ! nextWaypointIndex backward00) = Fin 0
   \<and> tick_ratio (jadd (progress backward00) (tick_step (speed backward00))) (Fin 0) = NInf
   \<and> updateDronePosition backward00 =
        Inr (backward00\<lparr>progress := Fin (- double_00001),
                        currentPosition := \<lparr>lat = NaN, lng = NaN\<rparr>\<rparr>)
   \<and> currentWaypointIndex backward00 = 0
   \<and> nextWaypointIndex backward00 = 1
   \<and> nextWaypointIndex halted00 < length (waypoints halted00)
   \<and> tick_ratio (jadd (progress halted00) (tick_step (speed halted00))) (Fin 0) = NaN
   \<and> updateDronePosition halted00 = Inr (halted00\<lparr>currentPosition := \<lparr>lat = NaN, lng = NaN\<rparr>\<rparr>)
   \<and> heap (handleStartSimulation (socket ''c'')
             (start_msg (Some twice_origin) (Some (Fin (1 / 2 ^ 1074)))) 0 initial_server) = [crawl00]
   \<and> jpos (speed crawl00)
   \<and> tick_ratio (jadd (progress crawl00) (tick_step (speed crawl00))) (Fin 0) = NaN
   \<and> updateDronePosition crawl00 = Inr (crawl00\<lparr>currentPosition := \<lparr>lat = NaN, lng = NaN\<rparr>\<rparr>)"
proof -
  have h: "heap (handleStartSimulation (socket ''c'')
      (start_msg (Some twice_origin) (Some (Fin (- 1)))) 0 initial_server) = [backward00]"
    by (simp add: handleStartSimulation_def socket_def start_msg_def initial_server_def
        backward00_def twice_origin_def)
  have hc: "heap (handleStartSimulation (socket ''c'')
      (start_msg (Some twice_origin) (Some (Fin (1 / 2 ^ 1074)))) 0 initial_server) = [crawl00]"
    by (simp add: handleStartSimulation_def socket_def start_msg_def initial_server_def
        crawl00_def twice_origin_def)
  note b = zero_segment_fields [OF backward00_def]
  note c = zero_segment_fields [OF crawl00_def]
  have hl: "waypoints halted00 = twice_origin" "currentWaypointIndex halted00 = 0"
    "nextWaypointIndex halted00 = 1" "progress halted00 = Fin 0" "speed halted00 = Fin 0"
    "length twice_origin = 2"
    by (simp_all add: halted00_def initialState_def twice_origin_def)
  have sb: "speed backward00 = Fin (- 1)"
    by (simp add: backward00_def initialState_def)
  have sc: "speed crawl00 = Fin (1 / 2 ^ 1074)"
    by (simp add: crawl00_def initialState_def)
  have pb: "jadd (progress backward00) (tick_step (speed backward00)) = Fin (- double_00001)"
    by (simp add: b sb tick_step_minus_one fl_minus fl_double_00001)
  have ph: "jadd (progress halted00) (tick_step (speed halted00)) = Fin 0"
    by (simp add: hl tick_step_zero)
  have pc: "jadd (progress crawl00) (tick_step (speed crawl00)) = Fin 0"
    unfolding c(4) sc tick_step_tiny by simp
  have rb: "tick_ratio (jadd (progress backward00) (tick_step (speed backward00))) (Fin 0) = NInf"
    unfolding pb using double_bounds by (simp add: tick_ratio_def)
  have rh: "tick_ratio (jadd (progress halted00) (tick_step (speed halted00))) (Fin 0) = NaN"
    unfolding ph by (simp add: tick_ratio_def)
  have rc: "tick_ratio (jadd (progress crawl00) (tick_step (speed crawl00))) (Fin 0) = NaN"
    unfolding pc by (simp add: tick_ratio_def)
  have ub: "updateDronePosition backward00 =
        Inr (backward00\<lparr>progress := Fin (- double_00001),
                        currentPosition := \<lparr>lat = NaN, lng = NaN\<rparr>\<rparr>)"
    using twice_origin_distance rb [unfolded pb] pb
    by (simp add: updateDronePosition_def Let_def b origin_nan)
  have uh: "updateDronePosition halted00 =
        Inr (halted00\<lparr>currentPosition := \<lparr>lat = NaN, lng = NaN\<rparr>\<rparr>)"
    using twice_origin_distance rh [unfolded ph] ph hl(4)
    by (simp add: updateDronePosition_def Let_def hl(1,2,3,6) origin_nan)
  have uc: "updateDronePosition crawl00 =
        Inr (crawl00\<lparr>currentPosition := \<lparr>lat = NaN, lng = NaN\<rparr>\<rparr>)"
    using twice_origin_distance rc [unfolded pc] pc c(4)
    by (simp add: updateDronePosition_def Let_def c(1,2,3,5) origin_nan)
  have jc: "jpos (speed crawl00)" unfolding sc by simp
  from h hc b hl rb rh rc ub uh uc jc twice_origin_distance show ?thesis by simp
qed

text \<open>
  Claim C4, amended. On a segment of length \<open>0\<close> inside the route the division never
  fails. When the progress after the step is positive, the quotient is \<open>Infinity\<close>,
  the ratio is \<open>1\<close> and both indices advance in that step with the progress reset.
  Otherwise (the progress after the step is zero, negative or \<open>NaN\<close>) the ratio is
  \<open>NaN\<close> or \<open>-Infinity\<close> and the indices stay.
\<close>

theorem C4_zero_length_segment:
  assumes nxt: "nextWaypointIndex st < length (waypoints st)"
    and cur: "currentWaypointIndex st < length (waypoints st)"
    and zero: "calculateDistance (waypoints st ! currentWaypointIndex st)
                 (waypoints st ! nextWaypointIndex st) = Fin 0"
  shows "(jpos (jadd (progress st) (tick_step (speed st))) \<longrightarrow>
            jdiv (jadd (progress st) (tick_step (speed st))) (Fin 0) = PInf
            \<and> tick_ratio (jadd (progress st) (tick_step (speed st))) (Fin 0) = Fin 1
            \<and> (\<exists>st'. updateDronePosition st = Inr st'
                 \<and> currentWaypointIndex st' = currentWaypointIndex st + 1
                 \<and> nextWaypointIndex st' = nextWaypointIndex st + 1
                 \<and> progress st' = Fin 0))
       \<and> (\<not> jpos (jadd (progress st) (tick_step (speed st))) \<longrightarrow>
            (tick_ratio (jadd (progress st) (tick_step (speed st))) (Fin 0) = NaN
             \<or> tick_ratio (jadd (progress st) (tick_step (speed st))) (Fin 0) = NInf)
            \<and> (\<exists>st'. updateDronePosition st = Inr st'
                 \<and> currentWaypointIndex st' = currentWaypointIndex st
                 \<and> nextWaypointIndex st' = nextWaypointIndex st))"
proof (intro conjI impI)
  assume p: "jpos (jadd (progress st) (tick_step (speed st)))"
  from ratio_zero_distance(1) [OF p]
  show "jdiv (jadd (progress st) (tick_step (speed st))) (Fin 0) = PInf"
    and r: "tick_ratio (jadd (progress st) (tick_step (speed st))) (Fin 0) = Fin 1"
    by simp_all
  from nxt cur zero r
  show "\<exists>st'. updateDronePosition st = Inr st'
                 \<and> currentWaypointIndex st' = currentWaypointIndex st + 1
                 \<and> nextWaypointIndex st' = nextWaypointIndex st + 1
                 \<and> progress st' = Fin 0"
    by (simp add: updateDronePosition_def Let_def)
next
  assume p: "\<not> jpos (jadd (progress st) (tick_step (speed st)))"
  from ratio_zero_distance(2) [OF p]
  show r: "tick_ratio (jadd (progress st) (tick_step (speed st))) (Fin 0) = NaN
             \<or> tick_ratio (jadd (progress st) (tick_step (speed st))) (Fin 0) = NInf" .
  then have "\<not> jge (tick_ratio (jadd (progress st) (tick_step (speed st))) (Fin 0)) (Fin 1)"
    by auto
  with nxt cur zero
  show "\<exists>st'. updateDronePosition st = Inr st'
                 \<and> currentWaypointIndex st' = currentWaypointIndex st
                 \<and> nextWaypointIndex st' = nextWaypointIndex st"
    by (simp add: updateDronePosition_def Let_def)
qed

theorem C4_zero_length_segment_witness:
  "jpos (jadd (progress forward00) (tick_step (speed forward00)))
   \<and> tick_ratio (jadd (progress forward00) (tick_step (speed forward00))) (Fin 0) = Fin 1
   \<and> (\<exists>st'. updateDronePosition forward00 = Inr st'
          \<and> currentWaypointIndex st' = 1 \<and> nextWaypointIndex st' = 2 \<and> progress st' = Fin 0)
   \<and> \<not> jpos (jadd (progress backward00) (tick_step (speed backward00)))
   \<and> (\<exists>st'. updateDronePosition backward00 = Inr st'
          \<and> currentWaypointIndex st' = 0 \<and> nextWaypointIndex st' = 1)"
proof -
  have f: "waypoints forward00 = twice_origin" "currentWaypointIndex forward00 = 0"
    "nextWaypointIndex forward00 = 1" "progress forward00 = Fin 0" "speed forward00 = Fin 1"
    by (simp_all add: forward00_def initialState_def)
  have b: "waypoints backward00 = twice_origin" "currentWaypointIndex backward00 = 0"
    "nextWaypointIndex backward00 = 1" "progress backward00 = Fin 0" "speed backward00 = Fin (- 1)"
    by (simp_all add: backward00_def initialState_def)
  have len: "length twice_origin = 2" by (simp add: twice_origin_def)
  have pf: "jpos (jadd (progress forward00) (tick_step (speed forward00)))"
    using double_bounds by (simp add: f tick_step_one fl_double_00001)
  have pb: "\<not> jpos (jadd (progress backward00) (tick_step (speed backward00)))"
    using double_bounds by (simp add: b tick_step_minus_one fl_minus fl_double_00001)
  from C4_zero_length_segment [of forward00] C4_zero_length_segment [of backward00]
    twice_origin_distance pf pb
  show ?thesis by (simp add: f b len numeral_2_eq_2)
qed

section \<open>Runs to completion\<close>

lemma fl_cases_nonneg:
  assumes "0 \<le> x"
  shows "fl x = PInf \<or> (\<exists>z. fl x = Fin z \<and> 0 \<le> z)"
  using fl_mono_dbl [of 0 x] assms by simp

lemma jge_fl_nonneg: "0 \<le> x \<Longrightarrow> jge (fl x) (Fin 0)"
  using fl_cases_nonneg [of x] by auto

lemma tick_step_nonneg:
  assumes "jpos v"
  shows "jge (tick_step v) (Fin 0)"
proof (cases v)
  case (Fin a)
  with assms have a: "0 < a" by simp
  have "0 \<le> a * double_0001" using a double_bounds by simp
  from fl_cases_nonneg [OF this] show ?thesis
  proof
    assume "fl (a * double_0001) = PInf"
    then show ?thesis by (simp add: tick_step_def Fin fl_1_10000)
  next
    assume "\<exists>z. fl (a * double_0001) = Fin z \<and> 0 \<le> z"
    then obtain z where z: "fl (a * double_0001) = Fin z" "0 \<le> z" by auto
    then have "jge (fl (z / 10)) (Fin 0)" by (intro jge_fl_nonneg) simp
    with z show ?thesis by (simp add: tick_step_def Fin fl_1_10000)
  qed
next
  case PInf
  then show ?thesis using double_bounds by (simp add: tick_step_def fl_1_10000)
qed (use assms in simp_all)

lemma headroom_less:
  assumes dy: "fl y = Fin y" and dz: "fl z = Fin z" and lt: "y < z"
  shows "headroom (Fin z) < headroom (Fin y)"
proof -
  from fl_grid [OF dy] obtain k where k: "y = of_int k * pow2 (- 1074)" ..
  from fl_grid [OF dz] obtain l where l: "z = of_int l * pow2 (- 1074)" ..
  have p: "pow2 (- 1074) * 2 ^ 1074 = 1" by (simp add: pow2_def)
  have ky: "y * 2 ^ 1074 = of_int k" unfolding k using p by (simp add: mult.assoc)
  have lz: "z * 2 ^ 1074 = of_int l" unfolding l using p by (simp add: mult.assoc)
  from lt have "y * 2 ^ 1074 < z * 2 ^ 1074" by simp
  then have kl: "k < l" unfolding ky lz by simp
  from fl_Fin(2) [OF dz] have "z < 2 ^ 1024" by simp
  then have "z * 2 ^ 1074 < 2 ^ 1024 * 2 ^ 1074" by simp
  also have "\<dots> = (2::real) ^ 2098" by (simp add: power_add [symmetric])
  finally have "of_int l < (2::real) ^ 2098" unfolding lz .
  then have "of_int l < (of_int (2 ^ 2098) :: real)" by simp
  then have l2: "l < 2 ^ 2098" by (simp only: of_int_less_iff)
  have "headroom (Fin z) = nat (2 ^ 2098 - l)" unfolding headroom.simps lz by simp
  moreover have "headroom (Fin y) = nat (2 ^ 2098 - k)" unfolding headroom.simps ky by simp
  ultimately show ?thesis using kl l2 by simp
qed

lemma headroom_pos:
  assumes dy: "fl y = Fin y"
  shows "0 < headroom (Fin y)"
proof -
  from fl_Fin(2) [OF dy] have "y < 2 ^ 1024" by simp
  then have "y * 2 ^ 1074 < 2 ^ 1024 * 2 ^ 1074" by simp
  also have "\<dots> = (2::real) ^ 2098" by (simp add: power_add [symmetric])
  finally have "y * 2 ^ 1074 < of_int (2 ^ 2098)" by simp
  then have "\<lfloor>y * 2 ^ 1074\<rfloor> < 2 ^ 2098" by (simp only: floor_less_iff)
  then show ?thesis by simp
qed

text \<open>Adding a step that is not negative to a progress that is not negative.\<close>

lemma progress_step:
  assumes d: "dbl p" and p0: "jge p (Fin 0)" and s0: "jge s (Fin 0)"
  shows "jadd p s = p \<or> (jgt (jadd p s) p \<and> headroom (jadd p s) < headroom p)"
    and "jge (jadd p s) (Fin 0)"
proof -
  have "(jadd p s = p \<or> (jgt (jadd p s) p \<and> headroom (jadd p s) < headroom p))
      \<and> jge (jadd p s) (Fin 0)"
  proof (cases p)
    case (Fin y)
    with d p0 have dy: "fl y = Fin y" and y0: "0 \<le> y" by simp_all
    show ?thesis
    proof (cases s)
      case (Fin t)
      with s0 have "0 \<le> t" by simp
      then have "y \<le> y + t" by simp
      from fl_mono_dbl [OF dy y0 this] show ?thesis
      proof
        assume "fl (y + t) = PInf"
        with headroom_pos [OF dy] show ?thesis by (simp add: \<open>p = Fin y\<close> Fin)
      next
        assume "\<exists>z. fl (y + t) = Fin z \<and> y \<le> z"
        then obtain z where z: "fl (y + t) = Fin z" "y \<le> z" by auto
        from z(1) have dz: "fl z = Fin z" by (rule fl_idem)
        show ?thesis
        proof (cases "z = y")
          case True
          with z y0 show ?thesis by (simp add: \<open>p = Fin y\<close> Fin)
        next
          case False
          with z(2) have "y < z" by simp
          with headroom_less [OF dy dz] z y0 show ?thesis
            by (simp add: \<open>p = Fin y\<close> Fin)
        qed
      qed
    next
      case PInf
      with headroom_pos [OF dy] show ?thesis by (simp add: \<open>p = Fin y\<close>)
    qed (use s0 in simp_all)
  next
    case PInf
    with s0 show ?thesis by (cases s) simp_all
  qed (use p0 in simp_all)
  then show "jadd p s = p \<or> (jgt (jadd p s) p \<and> headroom (jadd p s) < headroom p)"
    and "jge (jadd p s) (Fin 0)" by simp_all
qed

lemma advances_add:
  "advances (k + m) st =
     (case advances k st of Inl e \<Rightarrow> Inl e | Inr st' \<Rightarrow> advances m st')"
  by (induction k arbitrary: st) (simp_all split: sum.splits)

lemma absorbed_step:
  assumes "absorbed st"
  shows "\<exists>st'. updateDronePosition st = Inr st' \<and> absorbed st'
          \<and> isComplete st' = isComplete st \<and> progress st' = progress st
          \<and> currentWaypointIndex st' = currentWaypointIndex st
          \<and> nextWaypointIndex st' = nextWaypointIndex st"
  using assms by (auto simp: absorbed_def updateDronePosition_def Let_def)

lemma absorbed_forever:
  assumes "absorbed st"
  shows "\<exists>st'. advances m st = Inr st' \<and> absorbed st'
          \<and> isComplete st' = isComplete st \<and> progress st' = progress st
          \<and> currentWaypointIndex st' = currentWaypointIndex st
          \<and> nextWaypointIndex st' = nextWaypointIndex st"
  using assms
proof (induction m arbitrary: st)
  case 0
  then show ?case by simp
next
  case (Suc m)
  from absorbed_step [OF Suc.prems] obtain st1 where st1: "updateDronePosition st = Inr st1"
    "absorbed st1" "isComplete st1 = isComplete st" "progress st1 = progress st"
    "currentWaypointIndex st1 = currentWaypointIndex st"
    "nextWaypointIndex st1 = nextWaypointIndex st" by blast
  from Suc.IH [OF st1(2)] st1 show ?case by simp
qed

lemma settles_step:
  assumes u: "updateDronePosition st = Inr st1" and c: "isComplete st = None"
    and s: "settles st1"
  shows "settles st"
  using s unfolding settles_def
proof
  assume "\<exists>n st'. advances n st1 = Inr st' \<and> isComplete st' = Some True"
  then obtain n st' where "advances n st1 = Inr st'" "isComplete st' = Some True" by blast
  with u have "advances (Suc n) st = Inr st' \<and> isComplete st' = Some True" by simp
  then show "(\<exists>n st'. advances n st = Inr st' \<and> isComplete st' = Some True)
      \<or> (\<exists>n st'. advances n st = Inr st' \<and> absorbed st'
            \<and> (\<forall>k \<le> n. \<exists>s. advances k st = Inr s \<and> isComplete s = None))" by blast
next
  assume "\<exists>n st'. advances n st1 = Inr st' \<and> absorbed st'
            \<and> (\<forall>k \<le> n. \<exists>s. advances k st1 = Inr s \<and> isComplete s = None)"
  then obtain n st' where n: "advances n st1 = Inr st'" "absorbed st'"
    "\<forall>k \<le> n. \<exists>s. advances k st1 = Inr s \<and> isComplete s = None" by blast
  from u n(1) have a: "advances (Suc n) st = Inr st'" by simp
  have "\<exists>s. advances k st = Inr s \<and> isComplete s = None" if "k \<le> Suc n" for k
  proof (cases k)
    case 0
    with c show ?thesis by simp
  next
    case (Suc j)
    with that n(3) u show ?thesis by simp
  qed
  with a n(2) have "\<exists>n st'. advances n st = Inr st' \<and> absorbed st'
            \<and> (\<forall>k \<le> n. \<exists>s. advances k st = Inr s \<and> isComplete s = None)" by blast
  then show "(\<exists>n st'. advances n st = Inr st' \<and> isComplete st' = Some True)
      \<or> (\<exists>n st'. advances n st = Inr st' \<and> absorbed st'
            \<and> (\<forall>k \<le> n. \<exists>s. advances k st = Inr s \<and> isComplete s = None))" by blast
qed

lemma settles_segment:
  assumes v: "jpos v"
    and later: "\<And>st'. on_route wps v st' \<Longrightarrow> nextWaypointIndex st < nextWaypointIndex st' \<Longrightarrow> settles st'"
    and r: "on_route wps v st" and mid: "nextWaypointIndex st < length wps"
  shows "settles st"
  using r mid later
proof (induction "headroom (progress st)" arbitrary: st rule: less_induct)
  case less
  note r = less.prems(1) and mid = less.prems(2)
  let ?p = "jadd (progress st) (tick_step v)"
  let ?d = "calculateDistance (wps ! currentWaypointIndex st) (wps ! nextWaypointIndex st)"
  from r have f: "waypoints st = wps" "speed st = v" "isComplete st = None"
    "dbl (progress st)" "jge (progress st) (Fin 0)"
    "nextWaypointIndex st = currentWaypointIndex st + 1"
    by (simp_all add: on_route_def)
  from f(6) mid have cur: "currentWaypointIndex st < length wps" by simp
  note ps = progress_step [OF f(4) f(5) tick_step_nonneg [OF v]]
  show ?case
  proof (cases "jge (tick_ratio ?p ?d) (Fin 1)")
    case True
    define st1 where "st1 = st\<lparr>progress := ?p,
        currentPosition := interpolate (wps ! currentWaypointIndex st) (wps ! nextWaypointIndex st)
          (tick_ratio ?p ?d),
        currentWaypointIndex := currentWaypointIndex st + 1,
        nextWaypointIndex := nextWaypointIndex st + 1, progress := Fin 0\<rparr>"
    from True mid cur have u: "updateDronePosition st = Inr st1"
      by (simp add: updateDronePosition_def Let_def f(1,2) st1_def)
    have "on_route wps v st1" using f mid by (simp add: on_route_def st1_def)
    moreover have "nextWaypointIndex st < nextWaypointIndex st1" by (simp add: st1_def)
    ultimately have "settles st1" by (rule less.prems(3))
    with u f(3) show ?thesis by (rule settles_step)
  next
    case False
    define st1 where "st1 = st\<lparr>progress := ?p,
        currentPosition := interpolate (wps ! currentWaypointIndex st) (wps ! nextWaypointIndex st)
          (tick_ratio ?p ?d)\<rparr>"
    from False mid cur have u: "updateDronePosition st = Inr st1"
      by (simp add: updateDronePosition_def Let_def f(1,2) st1_def)
    from ps(1) show ?thesis
    proof
      assume same: "?p = progress st"
      with False mid cur have "absorbed st" by (simp add: absorbed_def f(1,2))
      moreover have "advances 0 st = Inr st" by simp
      moreover have "\<forall>k \<le> (0::nat). \<exists>s. advances k st = Inr s \<and> isComplete s = None"
        using f(3) by simp
      ultimately show ?thesis unfolding settles_def by blast
    next
      assume "jgt ?p (progress st) \<and> headroom ?p < headroom (progress st)"
      then have h: "headroom (progress st1) < headroom (progress st)" by (simp add: st1_def)
      have r1: "on_route wps v st1" using f mid ps(2) by (simp add: on_route_def st1_def)
      have n1: "nextWaypointIndex st1 = nextWaypointIndex st" by (simp add: st1_def)
      have "settles st1"
        using h r1 mid less.prems(3) unfolding n1 [symmetric] by (rule less.hyps)
      with u f(3) show ?thesis by (rule settles_step)
    qed
  qed
qed

lemma settles_route:
  assumes v: "jpos v" and r: "on_route wps v st"
  shows "settles st"
  using r
proof (induction "length wps - nextWaypointIndex st" arbitrary: st rule: less_induct)
  case less
  note r = less.prems
  show ?case
  proof (cases "nextWaypointIndex st < length wps")
    case True
    have "settles st'" if "on_route wps v st'" "nextWaypointIndex st < nextWaypointIndex st'" for st'
    proof -
      from that(1) have "nextWaypointIndex st' \<le> length wps" by (simp add: on_route_def)
      with that(2) True have "length wps - nextWaypointIndex st' < length wps - nextWaypointIndex st"
        by simp
      from less.hyps [OF this that(1)] show ?thesis .
    qed
    from settles_segment [OF v this r True] show ?thesis .
  next
    case False
    with r have "updateDronePosition st = Inr (st\<lparr>isComplete := Some True\<rparr>)"
      by (simp add: updateDronePosition_def on_route_def)
    then have "advances 1 st = Inr (st\<lparr>isComplete := Some True\<rparr>)" by simp
    moreover have "isComplete (st\<lparr>isComplete := Some True\<rparr>) = Some True" by simp
    ultimately show ?thesis unfolding settles_def by blast
  qed
qed

lemma on_route_initial:
  assumes "2 \<le> length wps" and "jpos v"
  shows "on_route wps v (initialState wps (Some v) now)"
proof -
  from assms(2) have "truthy v" by (cases v) simp_all
  with assms(1) show ?thesis by (simp add: on_route_def initialState_def)
qed

lemma crawl01_fixed: "updateDronePosition crawl01 = Inr crawl01"
proof -
  have st: "waypoints crawl01 = route01" "currentWaypointIndex crawl01 = 0"
    "nextWaypointIndex crawl01 = 1" "progress crawl01 = Fin 0"
    "speed crawl01 = Fin (1 / 2 ^ 1074)" "currentPosition crawl01 = \<lparr>lat = Fin 0, lng = Fin 0\<rparr>"
    unfolding crawl01_def initialState_def by (simp_all add: route01_def)
  have len: "length route01 = 2" by (simp add: route01_def)
  have p: "jadd (progress crawl01) (tick_step (speed crawl01)) = Fin 0"
    unfolding st tick_step_tiny by simp
  have r: "tick_ratio (Fin 0) (Fin 1) = Fin 0"
    by (simp add: tick_ratio_def)
  have pos: "interpolate (route01 ! 0) (route01 ! Suc 0) (Fin 0) = \<lparr>lat = Fin 0, lng = Fin 0\<rparr>"
    by (simp add: interpolate_def route01_def jsub_def fl_one)
  have "updateDronePosition crawl01 =
      Inr (crawl01\<lparr>progress := Fin 0, currentPosition := \<lparr>lat = Fin 0, lng = Fin 0\<rparr>\<rparr>)"
    using route01_distance p
    by (simp add: updateDronePosition_def Let_def st(1,2,3) len r pos)
  also have "crawl01\<lparr>progress := Fin 0, currentPosition := \<lparr>lat = Fin 0, lng = Fin 0\<rparr>\<rparr> = crawl01"
    using st(4,6) by simp
  finally show ?thesis .
qed

lemma crawl01_forever: "advances n crawl01 = Inr crawl01"
  by (induction n) (simp_all add: crawl01_fixed)

lemma fast_completes:
  "advances 2 (initialState route01 (Some (Fin 200000)) 0) =
     Inr ((initialState route01 (Some (Fin 200000)) 0)
           \<lparr>currentPosition := \<lparr>lat = Fin 0, lng = Fin 1\<rparr>,
            currentWaypointIndex := 1,
            nextWaypointIndex := 2,
            isComplete := Some True\<rparr>)"
proof -
  have len: "length route01 = 2" by (simp add: route01_def)
  have "updateDronePosition ((initialState route01 (Some (Fin 200000)) 0)
           \<lparr>currentPosition := \<lparr>lat = Fin 0, lng = Fin 1\<rparr>,
            currentWaypointIndex := 1,
            nextWaypointIndex := 2\<rparr>) =
     Inr ((initialState route01 (Some (Fin 200000)) 0)
           \<lparr>currentPosition := \<lparr>lat = Fin 0, lng = Fin 1\<rparr>,
            currentWaypointIndex := 1,
            nextWaypointIndex := 2,
            isComplete := Some True\<rparr>)"
    by (simp add: updateDronePosition_def initialState_def len)
  then show ?thesis
    by (simp add: numeral_2_eq_2 overshoot_step01)
qed


text \<open>
  Claim C5, as stated, fails: the route \<open>[{0,0},{0,1}]\<close> started with the
  smallest positive double \<open>5e-324\<close> as its speed has the step
  \<open>(5e-324 * 0.0001) / 10\<close>, which rounds to \<open>0\<close>; the state object is then a
  fixed point of \<open>updateDronePosition\<close> and the run never completes.
\<close>

theorem C5_tiny_speed_counterexample:
  "2 \<le> length route01
   \<and> jpos (Fin (1 / 2 ^ 1074))
   \<and> heap (handleStartSimulation (socket ''c'')
             (start_msg (Some route01) (Some (Fin (1 / 2 ^ 1074)))) 0 initial_server) = [crawl01]
   \<and> speed crawl01 = Fin (1 / 2 ^ 1074)
   \<and> tick_step (speed crawl01) = Fin 0
   \<and> updateDronePosition crawl01 = Inr crawl01
   \<and> isComplete crawl01 = None
   \<and> (\<forall>n. advances n crawl01 = Inr crawl01)
   \<and> \<not> (\<exists>n st. advances n crawl01 = Inr st \<and> isComplete st = Some True)"
proof -
  have len: "2 \<le> length route01" by (simp add: route01_def)
  have v: "jpos (Fin (1 / 2 ^ 1074))" by simp
  have h: "heap (handleStartSimulation (socket ''c'')
      (start_msg (Some route01) (Some (Fin (1 / 2 ^ 1074)))) 0 initial_server) = [crawl01]"
    by (simp add: handleStartSimulation_def socket_def start_msg_def initial_server_def
        crawl01_def route01_def)
  have s: "speed crawl01 = Fin (1 / 2 ^ 1074)"
    unfolding crawl01_def initialState_def by simp
  have t: "tick_step (speed crawl01) = Fin 0"
    unfolding s by (rule tick_step_tiny)
  have c: "isComplete crawl01 = None"
    by (simp add: crawl01_def initialState_def)
  have never: "\<not> (\<exists>n st. advances n crawl01 = Inr st \<and> isComplete st = Some True)"
    using c by (simp add: crawl01_forever)
  from len v h s t crawl01_fixed c crawl01_forever never show ?thesis by blast
qed

text \<open>
  Claim C5, amended. For every route of at least two waypoints and every speed above
  \<open>0\<close>, \<open>Infinity\<close> included, the calls of \<open>updateDronePosition\<close> never raise,
  and after finitely many of them the run either has its completion flag set, or never
  sets it and has reached a state inside the route whose step does not end the segment
  and is absorbed by the rounding of \<open>progress + step\<close>; from that state on the
  progress and both indices stay as they are.
\<close>

theorem C5_completes_or_stalls:
  assumes len: "2 \<le> length wps" and v: "jpos v"
  shows "(\<exists>n st. advances n (initialState wps (Some v) now) = Inr st \<and> isComplete st = Some True)
       \<or> ((\<forall>k. \<exists>st. advances k (initialState wps (Some v) now) = Inr st \<and> isComplete st = None)
          \<and> (\<exists>n st. advances n (initialState wps (Some v) now) = Inr st \<and> absorbed st
               \<and> (\<forall>m. \<exists>st'. advances (n + m) (initialState wps (Some v) now) = Inr st'
                       \<and> progress st' = progress st
                       \<and> currentWaypointIndex st' = currentWaypointIndex st
                       \<and> nextWaypointIndex st' = nextWaypointIndex st)))"
proof -
  let ?st0 = "initialState wps (Some v) now"
  from settles_route [OF v on_route_initial [OF len v]] have "settles ?st0" .
  then consider
    (completes) "\<exists>n st. advances n ?st0 = Inr st \<and> isComplete st = Some True"
    | (stuck) n st where "advances n ?st0 = Inr st" "absorbed st"
        "\<forall>k \<le> n. \<exists>s. advances k ?st0 = Inr s \<and> isComplete s = None"
    unfolding settles_def by blast
  then show ?thesis
  proof cases
    case completes
    then show ?thesis by blast
  next
    case stuck
    from stuck(1,3) have c: "isComplete st = None" by auto
    have later: "\<exists>st'. advances (n + m) ?st0 = Inr st' \<and> isComplete st' = None
        \<and> progress st' = progress st
        \<and> currentWaypointIndex st' = currentWaypointIndex st
        \<and> nextWaypointIndex st' = nextWaypointIndex st" for m
      using absorbed_forever [OF stuck(2), of m] c
      by (auto simp: advances_add stuck(1))
    have never: "\<exists>s. advances k ?st0 = Inr s \<and> isComplete s = None" for k
    proof (cases "k \<le> n")
      case True
      with stuck(3) show ?thesis by blast
    next
      case False
      then have "k = n + (k - n)" by simp
      with later [of "k - n"] show ?thesis by auto
    qed
    from later have "\<forall>m. \<exists>st'. advances (n + m) ?st0 = Inr st'
        \<and> progress st' = progress st
        \<and> currentWaypointIndex st' = currentWaypointIndex st
        \<and> nextWaypointIndex st' = nextWaypointIndex st" by blast
    with stuck(1,2) never show ?thesis by blast
  qed
qed

theorem C5_completes_or_stalls_witness:
  "((\<exists>n st. advances n (initialState route01 (Some (Fin 200000)) 0) = Inr st
        \<and> isComplete st = Some True)
    \<or> ((\<forall>k. \<exists>st. advances k (initialState route01 (Some (Fin 200000)) 0) = Inr st
            \<and> isComplete st = None)
       \<and> (\<exists>n st. advances n (initialState route01 (Some (Fin 200000)) 0) = Inr st \<and> absorbed st
            \<and> (\<forall>m. \<exists>st'. advances (n + m) (initialState route01 (Some (Fin 200000)) 0) = Inr st'
                    \<and> progress st' = progress st
                    \<and> currentWaypointIndex st' = currentWaypointIndex st
                    \<and> nextWaypointIndex st' = nextWaypointIndex st))))
   \<and> (\<exists>st. advances 2 (initialState route01 (Some (Fin 200000)) 0) = Inr st
         \<and> isComplete st = Some True)"
proof -
  have len: "2 \<le> length route01" by (simp add: route01_def)
  have v: "jpos (Fin 200000)" by simp
  from C5_completes_or_stalls [OF len v, of 0] fast_completes show ?thesis
    by simp
qed

section \<open>Pausing and resuming\<close>

text \<open>
  Claim C6. For a registered session of a reachable server, pausing only sets the pause
  flag of its state object; after that, any number of firings of the session's interval
  leave the whole server, and so every field of the session, as it is, and any firings
  of any intervals of the server leave the session's state object and registry entry as
  they are. Resuming then only clears the flag: if the session was running before the
  pause, the server is again exactly the one before the pause, and the next firing
  computes from it.
\<close>

theorem C6_pause_freezes:
  assumes r: "reachable srv" and e: "activeSimulations srv c = Some sim"
  shows "handlePauseSimulation c srv =
           srv\<lparr>heap := (heap srv)[state sim := (heap srv ! state sim)\<lparr>isPaused := True\<rparr>]\<rparr>
       \<and> ticks n (interval sim) (handlePauseSimulation c srv) = Inr (handlePauseSimulation c srv)
       \<and> (\<exists>srv'. fires hs (handlePauseSimulation c srv) = Inr srv'
            \<and> activeSimulations srv' c = Some sim
            \<and> heap srv' ! state sim = (heap srv ! state sim)\<lparr>isPaused := True\<rparr>)
       \<and> handleResumeSimulation c (handlePauseSimulation c srv) =
           srv\<lparr>heap := (heap srv)[state sim := (heap srv ! state sim)\<lparr>isPaused := False\<rparr>]\<rparr>
       \<and> (\<not> isPaused (heap srv ! state sim) \<longrightarrow>
            handleResumeSimulation c (handlePauseSimulation c srv) = srv)"
proof -
  let ?p = "handlePauseSimulation c srv"
  from r have c: "consistent srv" by (rule reachable_consistent)
  from r have hi: "heap_inv srv" by (rule reachable_heap_inv)
  note ent = consistent_entry [OF c e]
  have p: "?p = srv\<lparr>heap := (heap srv)[state sim := (heap srv ! state sim)\<lparr>isPaused := True\<rparr>]\<rparr>"
    using e by (rule pause_entry)
  have "intervalCallback (interval sim) ?p = Inr ?p"
    using ent by (intro callback_paused [where i = c and a = "state sim"]) (simp_all add: p)
  then have t: "ticks n (interval sim) ?p = Inr ?p" by (rule ticks_fixed)
  have e': "activeSimulations ?p c = Some sim" using e by (simp add: p)
  have nth: "heap ?p ! state sim = (heap srv ! state sim)\<lparr>isPaused := True\<rparr>"
    using ent(1) by (simp add: p)
  have paused: "isPaused (heap ?p ! state sim)" by (simp add: nth)
  from fires_paused [OF consistent_pause [OF c] heap_inv_pause [OF hi] e' paused, of hs] nth
  have f: "\<exists>srv'. fires hs ?p = Inr srv' \<and> activeSimulations srv' c = Some sim
            \<and> heap srv' ! state sim = (heap srv ! state sim)\<lparr>isPaused := True\<rparr>"
    by simp
  have res: "handleResumeSimulation c ?p =
      srv\<lparr>heap := (heap srv)[state sim := (heap srv ! state sim)\<lparr>isPaused := False\<rparr>]\<rparr>"
    unfolding resume_entry [OF e'] using ent(1) by (simp add: p)
  have same: "handleResumeSimulation c ?p = srv" if "\<not> isPaused (heap srv ! state sim)"
  proof -
    from that have "(heap srv ! state sim)\<lparr>isPaused := False\<rparr> = heap srv ! state sim" by simp
    then show ?thesis unfolding res by simp
  qed
  from p t f res same show ?thesis by blast
qed

theorem C6_pause_freezes_witness:
  "ticks 3 0 (handlePauseSimulation ''c'' running01) = Inr (handlePauseSimulation ''c'' running01)
   \<and> (\<exists>srv'. fires [0, 1, 0] (handlePauseSimulation ''c'' running01) = Inr srv'
        \<and> heap srv' ! 0 = (heap running01 ! 0)\<lparr>isPaused := True\<rparr>)
   \<and> isPaused (heap (handlePauseSimulation ''c'' running01) ! 0)
   \<and> handleResumeSimulation ''c'' (handlePauseSimulation ''c'' running01) = running01"
proof -
  have e: "activeSimulations running01 ''c'' = Some \<lparr>state = 0, interval = 0\<rparr>"
    by (simp add: running01_eq)
  have np: "\<not> isPaused (heap running01 ! 0)"
    by (simp add: running01_eq initialState_def)
  have len: "0 < length (heap running01)"
    by (simp add: running01_eq)
  note frozen = C6_pause_freezes [OF reachable_running01 e, of 3 "[0, 1, 0]",
      unfolded ActiveSimulation.select_convs]
  from frozen np
  have p: "handlePauseSimulation ''c'' running01 =
      running01\<lparr>heap := (heap running01)[0 := (heap running01 ! 0)\<lparr>isPaused := True\<rparr>]\<rparr>"
    and t: "ticks 3 0 (handlePauseSimulation ''c'' running01) =
      Inr (handlePauseSimulation ''c'' running01)"
    and r: "handleResumeSimulation ''c'' (handlePauseSimulation ''c'' running01) = running01"
    and f: "\<exists>srv'. fires [0, 1, 0] (handlePauseSimulation ''c'' running01) = Inr srv'
        \<and> heap srv' ! 0 = (heap running01 ! 0)\<lparr>isPaused := True\<rparr>"
    by blast+
  from len have "isPaused (heap (handlePauseSimulation ''c'' running01) ! 0)"
    unfolding p by simp
  with t r f show ?thesis by simp
qed

section \<open>Idempotence of pause and stop\<close>

lemma heap_update_again:
  "xs[a := f (xs[a := g (xs ! a)] ! a)] = xs[a := f (g (xs ! a))]"
  by (cases "a < length xs") (simp_all add: list_update_beyond)

text \<open>
  Claim C8. Pausing twice leaves the server as pausing once does, and stopping twice
  leaves the server as stopping once does, whatever the server; after a stop the
  socket has no registry entry, so the second stop finds none.
\<close>

theorem C8_pause_stop_idempotent:
  "handlePauseSimulation c (handlePauseSimulation c srv) = handlePauseSimulation c srv
   \<and> handleStopSimulation c (handleStopSimulation c srv) = handleStopSimulation c srv
   \<and> activeSimulations (handleStopSimulation c srv) c = None"
  by (auto simp: handlePauseSimulation_def handleStopSimulation_def clearInterval_def
      heap_update_again split: option.splits)

section \<open>Speed zero\<close>

text \<open>
  Claim C9. Take a registered session of a reachable server that is inside its route
  (the next index is below the number of waypoints). After its speed is set to \<open>0\<close>
  the step of a tick is \<open>0\<close>, and after any number of firings of its interval the
  progress and the indices are what they were, the completion flag is still unset, and
  the session is still registered.
\<close>

theorem C9_zero_speed_stalls:
  assumes r: "reachable srv" and e: "activeSimulations srv c = Some sim"
    and mid: "nextWaypointIndex (heap srv ! state sim) < length (waypoints (heap srv ! state sim))"
  shows "tick_step (Fin 0) = Fin 0
     \<and> (\<exists>srv'. ticks n (interval sim) (handleUpdateSpeed c (Fin 0) srv) = Inr srv'
          \<and> activeSimulations srv' c = Some sim
          \<and> speed (heap srv' ! state sim) = Fin 0
          \<and> progress (heap srv' ! state sim) = progress (heap srv ! state sim)
          \<and> currentWaypointIndex (heap srv' ! state sim) = currentWaypointIndex (heap srv ! state sim)
          \<and> nextWaypointIndex (heap srv' ! state sim) = nextWaypointIndex (heap srv ! state sim)
          \<and> isComplete (heap srv' ! state sim) = None)"
proof -
  let ?st = "heap srv ! state sim"
  let ?srv0 = "handleUpdateSpeed c (Fin 0) srv"
  from r have c: "consistent srv" by (rule reachable_consistent)
  from r have hi: "heap_inv srv" by (rule reachable_heap_inv)
  note ent = consistent_entry [OF c e]
  from hi ent(1) have inv: "session_inv ?st" by (rule heap_inv_nth)
  have eq: "?srv0 = srv\<lparr>heap := (heap srv)[state sim := ?st\<lparr>speed := Fin 0\<rparr>]\<rparr>"
    using e by (simp add: handleUpdateSpeed_def)
  have nth: "heap ?srv0 ! state sim = ?st\<lparr>speed := Fin 0\<rparr>"
    using ent(1) by (simp add: eq)
  have "stalled c sim ?st ?srv0"
    unfolding stalled_def nth
    using consistent_speed [OF c, of c "Fin 0"] heap_inv_speed [OF hi, of c "Fin 0"] e
      session_inv_mid(2) [OF inv mid]
    by (simp add: eq)
  from stalled_ticks [OF this mid, of n] show ?thesis
    by (auto simp: stalled_def tick_step_zero)
qed

theorem C9_zero_speed_stalls_witness:
  "\<exists>srv'. ticks 5 0 (handleUpdateSpeed ''c'' (Fin 0) ticked01) = Inr srv'
      \<and> activeSimulations srv' ''c'' = Some \<lparr>state = 0, interval = 0\<rparr>
      \<and> speed (heap srv' ! 0) = Fin 0
      \<and> progress (heap srv' ! 0) = Fin double_00001
      \<and> currentWaypointIndex (heap srv' ! 0) = 0
      \<and> nextWaypointIndex (heap srv' ! 0) = 1
      \<and> isComplete (heap srv' ! 0) = None"
proof -
  have e: "activeSimulations ticked01 ''c'' = Some \<lparr>state = 0, interval = 0\<rparr>"
    by (simp add: ticked01_def)
  have mid: "nextWaypointIndex (heap ticked01 ! state \<lparr>state = 0, interval = 0\<rparr>)
      < length (waypoints (heap ticked01 ! state \<lparr>state = 0, interval = 0\<rparr>))"
    by (simp add: ticked01_def initialState_def route01_def)
  have vals: "progress (heap ticked01 ! 0) = Fin double_00001"
    "currentWaypointIndex (heap ticked01 ! 0) = 0" "nextWaypointIndex (heap ticked01 ! 0) = 1"
    by (simp_all add: ticked01_def initialState_def)
  from C9_zero_speed_stalls [OF reachable_ticked01 e mid, of 5] show ?thesis
    by (simp add: vals)
qed

section \<open>The completion tick\<close>

text \<open>The difference \<open>2 ^ - 60 - 1\<close> rounds to \<open>-1\<close>.\<close>

lemma near_diff: "jsub (Fin (1 / 2 ^ 60)) (Fin 1) = Fin (- 1)"
  using fl_near_one by (simp add: jsub_def)

lemma near01_distance: "calculateDistance (near01 ! 0) (near01 ! Suc 0) = Fin 1"
  using near_diff by (simp add: calculateDistance_def near01_def) (simp add: jsub_def fl_one)

lemma near01_position:
  "interpolate (near01 ! 0) (near01 ! Suc 0) (Fin 1) = \<lparr>lat = Fin 0, lng = Fin 0\<rparr>"
  using near_diff by (simp add: interpolate_def near01_def fl_minus_one) (simp add: jsub_def)

lemma near_step:
  "updateDronePosition (initialState near01 (Some (Fin 200000)) now) =
     Inr ((initialState near01 (Some (Fin 200000)) now)
           \<lparr>currentPosition := \<lparr>lat = Fin 0, lng = Fin 0\<rparr>,
            currentWaypointIndex := 1,
            nextWaypointIndex := 2\<rparr>)"
proof -
  have st: "waypoints (initialState near01 (Some (Fin 200000)) now) = near01"
    "currentWaypointIndex (initialState near01 (Some (Fin 200000)) now) = 0"
    "nextWaypointIndex (initialState near01 (Some (Fin 200000)) now) = 1"
    "progress (initialState near01 (Some (Fin 200000)) now) = Fin 0"
    "speed (initialState near01 (Some (Fin 200000)) now) = Fin 200000"
    by (simp_all add: initialState_def)
  have len: "length near01 = 2" by (simp add: near01_def)
  have r: "tick_ratio (Fin 2) (Fin 1) = Fin 1"
    by (simp add: tick_ratio_def fl_two)
  show ?thesis
    using near01_distance
    by (simp add: updateDronePosition_def Let_def st len tick_step_200000 fl_two r near01_position)
qed

lemma near_fast_eq:
  "near_fast =
     \<lparr>heap = [initialState near01 (Some (Fin 200000)) 0],
      timers = [Some (''c'', 0)],
      activeSimulations = [''c'' \<mapsto> \<lparr>state = 0, interval = 0\<rparr>],
      sent = [(''c'', SIMULATION_STARTED \<lparr>lat = Fin 0, lng = Fin 1\<rparr>)]\<rparr>"
  by (simp add: near_fast_def handleStartSimulation_def socket_def start_msg_def
      initial_server_def near01_def)

lemma reachable_near_fast: "reachable near_fast"
  using reachable.message [OF reachable.init, of "socket ''c''"
      "start_msg (Some near01) (Some (Fin 200000))" 0]
  by (simp add: onMessage_def start_msg_def near_fast_def)

lemma first_tick_near: "intervalCallback 0 near_fast = Inr near_arrived"
  unfolding near_fast_eq near_arrived_def
  by (simp add: intervalCallback_def near_step positionUpdate_def)
    (simp add: initialState_def)

lemma reachable_near_arrived: "reachable near_arrived"
  using reachable.tick [OF reachable_near_fast first_tick_near] .

text \<open>
  Claim C10, as stated, fails in the position: on the route from longitude \<open>1\<close> to
  longitude \<open>2 ^ - 60\<close> started with speed \<open>200000\<close> the first firing ends the only
  segment at the position \<open>1 + (2 ^ - 60 - 1) * 1\<close>, where the difference rounds to
  \<open>-1\<close> and the sum is \<open>0\<close>; the completion tick sends that position, which is
  not the last waypoint.
\<close>

theorem C10_final_position_counterexample:
  "reachable near_arrived
   \<and> activeSimulations near_arrived ''c'' = Some \<lparr>state = 0, interval = 0\<rparr>
   \<and> \<not> isPaused (heap near_arrived ! 0)
   \<and> waypoints (heap near_arrived ! 0) = near01
   \<and> length near01 \<le> nextWaypointIndex (heap near_arrived ! 0)
   \<and> isComplete (heap near_arrived ! 0) = None
   \<and> intervalCallback 0 near_arrived =
       Inr \<lparr>heap = [(heap near_arrived ! 0)\<lparr>isComplete := Some True\<rparr>],
            timers = [None],
            activeSimulations = Map.empty,
            sent = sent near_arrived @
              [(''c'', POSITION_UPDATE \<lparr>lat = Fin 0, lng = Fin 0\<rparr> (Fin 0) 1 True)]\<rparr>
   \<and> last near01 = \<lparr>lat = Fin 0, lng = Fin (1 / 2 ^ 60)\<rparr>
   \<and> \<lparr>lat = Fin 0, lng = Fin 0\<rparr> \<noteq> last near01"
proof -
  have st: "heap near_arrived ! 0 =
      (initialState near01 (Some (Fin 200000)) 0)
        \<lparr>currentPosition := \<lparr>lat = Fin 0, lng = Fin 0\<rparr>,
         currentWaypointIndex := 1, nextWaypointIndex := 2\<rparr>"
    by (simp add: near_arrived_def)
  have f: "waypoints (heap near_arrived ! 0) = near01" "\<not> isPaused (heap near_arrived ! 0)"
    "nextWaypointIndex (heap near_arrived ! 0) = 2" "isComplete (heap near_arrived ! 0) = None"
    "progress (heap near_arrived ! 0) = Fin 0" "currentWaypointIndex (heap near_arrived ! 0) = 1"
    "currentPosition (heap near_arrived ! 0) = \<lparr>lat = Fin 0, lng = Fin 0\<rparr>"
    unfolding st by (simp_all add: initialState_def)
  have len: "length near01 = 2" by (simp add: near01_def)
  have l: "last near01 = \<lparr>lat = Fin 0, lng = Fin (1 / 2 ^ 60)\<rparr>"
    by (simp add: near01_def)
  have upd: "updateDronePosition (heap near_arrived ! 0) =
      Inr ((heap near_arrived ! 0)\<lparr>isComplete := Some True\<rparr>)"
    by (simp add: updateDronePosition_def f len)
  have shape: "timers near_arrived = [Some (''c'', 0)]" "(heap near_arrived)[0 := x] = [x]"
    "activeSimulations near_arrived = [''c'' \<mapsto> \<lparr>state = 0, interval = 0\<rparr>]"
    "length (heap near_arrived) = 1" for x
    by (simp_all add: near_arrived_def)
  have cb: "intervalCallback 0 near_arrived =
       Inr \<lparr>heap = [(heap near_arrived ! 0)\<lparr>isComplete := Some True\<rparr>],
            timers = [None],
            activeSimulations = Map.empty,
            sent = sent near_arrived @
              [(''c'', POSITION_UPDATE \<lparr>lat = Fin 0, lng = Fin 0\<rparr> (Fin 0) 1 True)]\<rparr>"
    by (simp add: intervalCallback_def shape f upd positionUpdate_def)
  have ne: "\<lparr>lat = Fin 0, lng = Fin 0\<rparr> \<noteq> last near01"
    unfolding l by simp
  from reachable_near_arrived shape(3) f(1,2,3,4) len cb l ne show ?thesis
    by simp
qed

text \<open>
  Claim C10, amended. Take a registered, running session of a reachable server whose
  next index has reached the number of waypoints. The firing of its interval sets the
  completion flag of the state object and changes no other field of it, and sends a
  \<open>POSITION_UPDATE\<close> whose progress is \<open>0\<close>, whose waypoint index is the last
  index, whose \<open>isComplete\<close> is true and whose position is the one stored when the
  last segment ended: \<open>a + (b - a) * 1\<close> in double arithmetic on each coordinate of
  the last two waypoints \<open>a\<close> and \<open>b\<close>. The interval is then cleared and the
  registry entry deleted.
\<close>

theorem C10_completion_tick:
  assumes r: "reachable srv" and e: "activeSimulations srv c = Some sim"
    and np: "\<not> isPaused (heap srv ! state sim)"
    and fin_route: "length (waypoints (heap srv ! state sim)) \<le> nextWaypointIndex (heap srv ! state sim)"
  shows "intervalCallback (interval sim) srv =
      Inr (srv\<lparr>heap := (heap srv)[state sim := (heap srv ! state sim)\<lparr>isComplete := Some True\<rparr>],
               sent := sent srv @
                 [(c, POSITION_UPDATE
                        (interpolate
                           (waypoints (heap srv ! state sim) !
                              (length (waypoints (heap srv ! state sim)) - 2))
                           (last (waypoints (heap srv ! state sim))) (Fin 1))
                        (Fin 0)
                        (length (waypoints (heap srv ! state sim)) - 1) True)],
               timers := (timers srv)[interval sim := None],
               activeSimulations := (activeSimulations srv)(c := None)\<rparr>)"
proof -
  let ?st = "heap srv ! state sim"
  let ?w = "waypoints ?st"
  from r have c: "consistent srv" by (rule reachable_consistent)
  from r have hi: "heap_inv srv" by (rule reachable_heap_inv)
  note ent = consistent_entry [OF c e]
  from hi ent(1) have inv: "session_inv ?st" by (rule heap_inv_nth)
  from inv fin_route have nxt: "nextWaypointIndex ?st = length ?w"
    and cur: "currentWaypointIndex ?st = length ?w - 1" and len: "2 \<le> length ?w"
    and prog: "progress ?st = Fin 0"
    and pos: "currentPosition ?st =
        interpolate (?w ! (currentWaypointIndex ?st - 1)) (?w ! currentWaypointIndex ?st) (Fin 1)"
    by (auto simp: session_inv_def)
  from len have ne: "?w \<noteq> []" by auto
  have two: "length ?w - 1 - 1 = length ?w - 2" by simp
  from pos have pos': "currentPosition ?st =
      interpolate (?w ! (length ?w - 2)) (last ?w) (Fin 1)"
    unfolding cur two last_conv_nth [OF ne] .
  have upd: "updateDronePosition ?st = Inr (?st\<lparr>isComplete := Some True\<rparr>)"
    using fin_route by (simp add: updateDronePosition_def)
  have msg: "positionUpdate (?st\<lparr>isComplete := Some True\<rparr>) =
      POSITION_UPDATE (interpolate (?w ! (length ?w - 2)) (last ?w) (Fin 1)) (Fin 0)
        (length ?w - 1) True"
    using pos' prog cur by (simp add: positionUpdate_def)
  from callback_fires [OF ent(2) ent(3) ent(1) np upd] show ?thesis
    by (simp add: msg)
qed

theorem C10_completion_tick_witness:
  "\<exists>srv'. intervalCallback 0 arrived01 = Inr srv'
      \<and> heap srv' = [(heap arrived01 ! 0)\<lparr>isComplete := Some True\<rparr>]
      \<and> sent srv' = sent arrived01 @
           [(''c'', POSITION_UPDATE \<lparr>lat = Fin 0, lng = Fin 1\<rparr> (Fin 0) 1 True)]
      \<and> timers srv' = [None]
      \<and> activeSimulations srv' ''c'' = None"
proof -
  have e: "activeSimulations arrived01 ''c'' = Some \<lparr>state = 0, interval = 0\<rparr>"
    by (simp add: arrived01_def)
  have w: "waypoints (heap arrived01 ! 0) = route01"
    by (simp add: arrived01_def initialState_def)
  have np: "\<not> isPaused (heap arrived01 ! state \<lparr>state = 0, interval = 0\<rparr>)"
    by (simp add: arrived01_def initialState_def)
  have fin_route: "length (waypoints (heap arrived01 ! state \<lparr>state = 0, interval = 0\<rparr>))
      \<le> nextWaypointIndex (heap arrived01 ! state \<lparr>state = 0, interval = 0\<rparr>)"
    by (simp add: w) (simp add: arrived01_def route01_def)
  have l: "interpolate (route01 ! (length route01 - 2)) (last route01) (Fin 1) =
      \<lparr>lat = Fin 0, lng = Fin 1\<rparr>" "length route01 - Suc 0 = Suc 0"
    by (simp_all add: route01_def interpolate_def jsub_def fl_one)
  have shape: "(heap arrived01)[0 := x] = [x]" "timers arrived01 = [Some (''c'', 0)]" for x
    by (simp_all add: arrived01_def)
  from C10_completion_tick [OF reachable_arrived01 e np fin_route] show ?thesis
    by (simp add: w l shape)
qed

end
